theory Spec2Isabelle
  imports Complex_Main "HOL-Library.Char_ord" "HOL-Library.List_Lexorder"
begin

section \<open>JavaScript string operations\<close>

text \<open>
  Strings are lists of characters; one \<^typ>\<open>char\<close> stands for one code unit of the
  source's strings, so the code units from 0 to 255 are the ones the model has. Case
  mapping is the ASCII one: the letters \<open>a\<close>..\<open>z\<close> and \<open>A\<close>..\<open>Z\<close> are mapped, every other
  character is left alone. The whitespace removed by \<open>trim\<close> is tab, line feed, vertical
  tab, form feed, carriage return, space and the no-break space.
\<close>

definition slice :: "string \<Rightarrow> nat \<Rightarrow> nat \<Rightarrow> string" where
  "slice s a b = take (b - a) (drop a s)"

definition occurs_at :: "string \<Rightarrow> string \<Rightarrow> nat \<Rightarrow> bool" where
  "occurs_at s sub k = (take (length sub) (drop k s) = sub)"

text \<open>\<open>s.indexOf(sub, from)\<close>: the first position at or after \<open>from\<close> where \<open>sub\<close>
  occurs, \<open>None\<close> for the source's \<open>-1\<close>.\<close>

definition indexOf :: "string \<Rightarrow> string \<Rightarrow> nat \<Rightarrow> nat option" where
  "indexOf s sub from = List.find (occurs_at s sub) [from..<Suc (length s)]"

text \<open>\<open>s.lastIndexOf(sub)\<close>: the last position where \<open>sub\<close> occurs.\<close>

definition lastIndexOf :: "string \<Rightarrow> string \<Rightarrow> nat option" where
  "lastIndexOf s sub = List.find (occurs_at s sub) (rev [0..<Suc (length s)])"

definition includes_str :: "string \<Rightarrow> string \<Rightarrow> bool" where
  "includes_str s sub = (indexOf s sub 0 \<noteq> None)"

definition startsWith :: "string \<Rightarrow> string \<Rightarrow> bool" where
  "startsWith s p = occurs_at s p 0"

definition upper_char :: "char \<Rightarrow> char" where
  "upper_char c = (if CHR ''a'' \<le> c \<and> c \<le> CHR ''z''
     then char_of (of_char c - (32::nat)) else c)"

definition lower_char :: "char \<Rightarrow> char" where
  "lower_char c = (if CHR ''A'' \<le> c \<and> c \<le> CHR ''Z''
     then char_of (of_char c + (32::nat)) else c)"

definition toUpperCase :: "string \<Rightarrow> string" where
  "toUpperCase s = map upper_char s"

definition toLowerCase :: "string \<Rightarrow> string" where
  "toLowerCase s = map lower_char s"

definition is_space :: "char \<Rightarrow> bool" where
  "is_space c = (c = CHR 0x09 \<or> c = CHR 0x0A \<or> c = CHR 0x0B \<or> c = CHR 0x0C
     \<or> c = CHR 0x0D \<or> c = CHR 0x20 \<or> c = CHR 0xA0)"

definition trim :: "string \<Rightarrow> string" where
  "trim s = rev (dropWhile is_space (rev (dropWhile is_space s)))"

text \<open>\<open>parts.join(sep)\<close>.\<close>

fun join :: "string \<Rightarrow> string list \<Rightarrow> string" where
  "join sep [] = []"
| "join sep [x] = x"
| "join sep (x # y # ys) = x @ sep @ join sep (y # ys)"

section \<open>The agent service\<close>

text \<open>
  The generation service is a parameter of the model. A single-shot call either raises,
  or returns a result whose content is a string, or returns one whose content is not a
  string. A streamed call yields finitely many chunks and then either ends or raises.
  The prompt texts are kept symbolic: no property below depends on their wording, only
  on which one is sent and with which context and query. \<open>RESPONSE_PROMPT context query\<close>
  stands for the response template with both placeholders replaced.
\<close>

datatype content =
    ROUTER_PROMPT
  | REFUSE_PROMPT
  | SEARCH_QUERY_PROMPT
  | GREETING_PROMPT
  | RESPONSE_PROMPT string string
  | Plain string

datatype message = SystemMessage content | HumanMessage content | AIMessage content

datatype invoke_result = InvokeThrows | ContentString string | ContentOther

datatype chunk = ChunkString string | ChunkOther

datatype stream_result = StreamEnds "chunk list" | StreamThrows "chunk list"

record chat_model =
  invoke :: "message list \<Rightarrow> invoke_result"
  stream :: "message list \<Rightarrow> stream_result"

datatype error =
    GenerationFailure
  | EmbeddingNotInitialized
  | LanceNotInitialized
  | InitializationFailure
  | DeleteFailure
  | SqliteConstraint

text \<open>\<open>history.slice(-3)\<close>\<close>

definition recentHistory :: "message list \<Rightarrow> message list" where
  "recentHistory history = drop (length history - 3) history"

definition router_messages :: "string \<Rightarrow> message list \<Rightarrow> message list" where
  "router_messages query history =
     SystemMessage ROUTER_PROMPT # recentHistory history @ [HumanMessage (Plain query)]"

definition mentions_keyword :: "string \<Rightarrow> bool" where
  "mentions_keyword query =
     (includes_str (toLowerCase query) ''hasinthaka'' \<or> includes_str (toLowerCase query) ''zenlise''
      \<or> includes_str (toLowerCase query) ''zenbot'')"

definition classifyIntent :: "chat_model \<Rightarrow> string \<Rightarrow> message list \<Rightarrow> error + string" where
  "classifyIntent m query history =
     (case invoke m (router_messages query history) of
        InvokeThrows \<Rightarrow> Inl GenerationFailure
      | result \<Rightarrow>
          (let text = (case result of ContentString s \<Rightarrow> toUpperCase (trim s)
                                    | _ \<Rightarrow> ''OFF_TOPIC'')
           in if includes_str text ''GREETING'' then Inr ''GREETING''
              else if includes_str text ''KNOWLEDGE'' then Inr ''KNOWLEDGE''
              else if mentions_keyword query then Inr ''KNOWLEDGE''
              else Inr ''OFF_TOPIC''))"

definition search_query_messages :: "string \<Rightarrow> message list \<Rightarrow> message list" where
  "search_query_messages query history =
     SystemMessage SEARCH_QUERY_PROMPT # recentHistory history @ [HumanMessage (Plain query)]"

definition generateSearchQuery :: "chat_model \<Rightarrow> string \<Rightarrow> message list \<Rightarrow> error + string" where
  "generateSearchQuery m query history =
     (case invoke m (search_query_messages query history) of
        InvokeThrows \<Rightarrow> Inl GenerationFailure
      | ContentString s \<Rightarrow> Inr (trim s)
      | ContentOther \<Rightarrow> Inr query)"

text \<open>
  A step that writes to the token sink is modelled by the list of tokens it passes to
  \<open>onToken\<close>, in order, paired with how it ends: \<open>Inr\<close> a value, or \<open>Inl\<close> the
  exception it raises.
\<close>

definition chunk_token :: "chunk \<Rightarrow> string" where
  "chunk_token c = (case c of ChunkString s \<Rightarrow> s | ChunkOther \<Rightarrow> [])"

definition stream_tokens :: "chat_model \<Rightarrow> message list \<Rightarrow> string list \<times> (error + unit)" where
  "stream_tokens m messages =
     (case stream m messages of
        StreamEnds chunks \<Rightarrow> (map chunk_token chunks, Inr ())
      | StreamThrows chunks \<Rightarrow> (map chunk_token chunks, Inl GenerationFailure))"

definition generateGreeting :: "chat_model \<Rightarrow> string \<Rightarrow> string list \<times> (error + unit)" where
  "generateGreeting m query =
     stream_tokens m [SystemMessage GREETING_PROMPT, HumanMessage (Plain query)]"

definition generateRefusal :: "chat_model \<Rightarrow> string \<Rightarrow> string list \<times> (error + unit)" where
  "generateRefusal m query =
     stream_tokens m [SystemMessage REFUSE_PROMPT, HumanMessage (Plain query)]"

definition streamResponse :: "chat_model \<Rightarrow> string \<Rightarrow> string \<Rightarrow> string list \<times> (error + unit)" where
  "streamResponse m query context =
     stream_tokens m [SystemMessage (RESPONSE_PROMPT context query), HumanMessage (Plain query)]"

definition errResponse :: string where
  "errResponse = ''I apologize, but I encountered an error while processing your request.''"

text \<open>The test both modes apply to the knowledge tool's answer before using it as
  context.\<close>

definition no_grounding :: "string \<Rightarrow> bool" where
  "no_grounding searchResult =
     (includes_str searchResult ''No relevant information'' \<or> startsWith searchResult ''Error'')"

text \<open>The knowledge tool is the parameter \<open>kb\<close>: the string its \<open>call\<close> returns for an
  input. The tool catches its own failures and answers with a string, so a call does
  not raise.\<close>

definition runFastStream ::
  "chat_model \<Rightarrow> (string \<Rightarrow> string) \<Rightarrow> string \<Rightarrow> message list \<Rightarrow> string list \<times> (error + string)" where
  "runFastStream m kb query history =
     (let searchResult = kb query;
          (tokens, r) = (if no_grounding searchResult then streamResponse m query []
                         else streamResponse m query searchResult)
      in case r of
           Inr _ \<Rightarrow> (tokens, Inr [])
         | Inl _ \<Rightarrow> (tokens @ [errResponse], Inr errResponse))"

text \<open>The body of the \<open>try\<close> block of \<open>runAgentStream\<close>.\<close>

definition agent_try_body ::
  "chat_model \<Rightarrow> (string \<Rightarrow> string) \<Rightarrow> string \<Rightarrow> message list \<Rightarrow> string
     \<Rightarrow> string list \<times> (error + unit)" where
  "agent_try_body m kb query history intent =
     (if intent = ''GREETING'' then
        (let (tokens, r) = generateGreeting m query
         in (['' User is greeting. Preparing response...'', ''</think>\<newline>\<newline>''] @ tokens, r))
      else if intent = ''OFF_TOPIC'' then
        (let (tokens, r) = generateRefusal m query
         in (['' User is off-topic. Refusing...'', ''</think>\<newline>\<newline>''] @ tokens, r))
      else
        (case generateSearchQuery m query history of
           Inl e \<Rightarrow> (['' Refining search query...''], Inl e)
         | Inr refinedQuery \<Rightarrow>
             (let searching = ['' Refining search query...'',
                    '' Query: '' @ [CHR 0x22] @ refinedQuery @ [CHR 0x22] @ ''...'',
                    '' Searching...''];
                  searchResult = kb refinedQuery
              in if no_grounding searchResult then
                   (let (tokens, r) = streamResponse m query []
                    in (searching @ ['' No relevant info found.'', ''</think>\<newline>\<newline>'']
                          @ tokens, r))
                 else
                   (let (tokens, r) = streamResponse m query searchResult
                    in (searching @ ['' Found relevant information.'', ''</think>\<newline>\<newline>'']
                          @ tokens, r)))))"

definition runAgentStream ::
  "chat_model \<Rightarrow> (string \<Rightarrow> string) \<Rightarrow> string \<Rightarrow> message list \<Rightarrow> string list \<times> (error + string)" where
  "runAgentStream m kb query history =
     (let started = [''<think>'', ''Analyzing user intent...'']
      in case classifyIntent m query history of
           Inl e \<Rightarrow> (started, Inl e)
         | Inr intent \<Rightarrow>
             (let identified = started @ ['' Intent identified: '' @ intent @ ''.''];
                  (tokens, r) = agent_try_body m kb query history intent
              in case r of
                   Inr _ \<Rightarrow> (identified @ tokens, Inr [])
                 | Inl _ \<Rightarrow>
                     (identified @ tokens
                        @ ['' Error processing request.'', ''</think>\<newline>\<newline>'', errResponse],
                      Inr errResponse)))"

section \<open>The think-tag parser (client/src/utils/parseThink.ts)\<close>

definition THINK_OPEN :: string where
  "THINK_OPEN = ''<think>''"

definition THINK_CLOSE :: string where
  "THINK_CLOSE = ''</think>''"

text \<open>What a successful \<open>indexOf\<close> says about the position it returns; the loop's
  termination rests on it.\<close>

lemma indexOf_SomeD:
  assumes "indexOf s sub from = Some k"
  shows "from \<le> k" and "k \<le> length s" and "occurs_at s sub k"
    and "\<And>j. from \<le> j \<Longrightarrow> j < k \<Longrightarrow> \<not> occurs_at s sub j"
proof -
  from assms obtain i where i: "i < Suc (length s) - from"
    and P: "occurs_at s sub ([from..<Suc (length s)] ! i)"
    and k: "k = [from..<Suc (length s)] ! i"
    and first: "\<forall>j<i. \<not> occurs_at s sub ([from..<Suc (length s)] ! j)"
    unfolding indexOf_def find_Some_iff length_upt by blast
  from i have lt: "from + i < Suc (length s)" by arith
  then have k': "k = from + i" using k by (simp only: nth_upt)
  show "from \<le> k" using k' by simp
  show "k \<le> length s" using k' lt by simp
  show "occurs_at s sub k" using P k by simp
  show "\<not> occurs_at s sub j" if "from \<le> j" "j < k" for j
  proof -
    from that k' obtain d where d: "j = from + d" "d < i"
      by (metis add.commute le_Suc_ex nat_add_left_cancel_less)
    then have "from + d < Suc (length s)" using lt by arith
    then have "[from..<Suc (length s)] ! d = from + d" by (simp only: nth_upt)
    with first d show ?thesis by auto
  qed
qed

text \<open>
  The \<open>while\<close> loop of \<open>parseThinkContent\<close>, from position \<open>i\<close> with the current values
  of \<open>response\<close>, \<open>thinkingParts\<close> and \<open>currentThink\<close>; it returns their values when the
  loop is left.
\<close>

function parse_loop :: "string \<Rightarrow> nat \<Rightarrow> string \<Rightarrow> string list \<Rightarrow> string
    \<Rightarrow> string \<times> string list \<times> string" where
  "parse_loop raw i response thinkingParts currentThink =
     (if i < length raw then
        (if slice raw i (i + length THINK_OPEN) = THINK_OPEN then
           (case indexOf raw THINK_CLOSE (i + length THINK_OPEN) of
              None \<Rightarrow> (response, thinkingParts, drop (i + length THINK_OPEN) raw)
            | Some closeIdx \<Rightarrow>
                parse_loop raw (closeIdx + length THINK_CLOSE) response
                  (thinkingParts @ [currentThink @ slice raw (i + length THINK_OPEN) closeIdx]) [])
         else
           (case indexOf raw THINK_OPEN i of
              None \<Rightarrow> (response @ drop i raw, thinkingParts, currentThink)
            | Some nextOpen \<Rightarrow>
                parse_loop raw nextOpen (response @ slice raw i nextOpen) thinkingParts currentThink))
      else (response, thinkingParts, currentThink))"
  by pat_completeness auto
termination
proof (relation "measure (\<lambda>(raw, i, response, thinkingParts, currentThink). length raw - i)")
  show "wf (measure (\<lambda>(raw, i, response, thinkingParts, currentThink). length raw - i))"
    by simp
next
  fix raw :: string and i closeIdx :: nat and response currentThink :: string
    and thinkingParts :: "string list"
  assume lt: "i < length raw"
    and ix: "indexOf raw THINK_CLOSE (i + length THINK_OPEN) = Some closeIdx"
  from indexOf_SomeD(1)[OF ix] have "i \<le> closeIdx" by simp
  with lt show "((raw, closeIdx + length THINK_CLOSE, response,
        thinkingParts @ [currentThink @ slice raw (i + length THINK_OPEN) closeIdx], []),
       raw, i, response, thinkingParts, currentThink)
      \<in> measure (\<lambda>(raw, i, response, thinkingParts, currentThink). length raw - i)"
    by (simp add: THINK_CLOSE_def)
next
  fix raw :: string and i nextOpen :: nat and response currentThink :: string
    and thinkingParts :: "string list"
  assume lt: "i < length raw"
    and no: "slice raw i (i + length THINK_OPEN) \<noteq> THINK_OPEN"
    and ix: "indexOf raw THINK_OPEN i = Some nextOpen"
  from no have "\<not> occurs_at raw THINK_OPEN i"
    by (simp add: slice_def occurs_at_def)
  with indexOf_SomeD(1,3)[OF ix] have "i < nextOpen"
    by (cases "nextOpen = i") auto
  with lt show "((raw, nextOpen, response @ slice raw i nextOpen, thinkingParts, currentThink),
       raw, i, response, thinkingParts, currentThink)
      \<in> measure (\<lambda>(raw, i, response, thinkingParts, currentThink). length raw - i)"
    by simp
qed

declare parse_loop.simps [simp del]

record ParseThinkResult =
  response :: string
  thinkingParts :: "string list"
  isInsideThink :: bool

definition parseThinkContent :: "string \<Rightarrow> ParseThinkResult" where
  "parseThinkContent raw =
     (case parse_loop raw 0 [] [] [] of
        (resp, parts, currentThink) \<Rightarrow>
          \<lparr>response = trim resp,
           thinkingParts = (if length currentThink > 0 then parts @ [currentThink] else parts),
           isInsideThink =
             (case lastIndexOf raw THINK_OPEN of
                None \<Rightarrow> False
              | Some lastOpen \<Rightarrow>
                  (case lastIndexOf raw THINK_CLOSE of
                     None \<Rightarrow> True
                   | Some lastClose \<Rightarrow> lastOpen > lastClose))\<rparr>)"

text \<open>
  Texts with balanced markers: a sequence of closed blocks, each a visible part \<open>v\<close>
  followed by \<open><think>t</think>\<close>, and a visible tail. A visible part holds no open
  marker and a reasoning part holds no close marker, so the blocks are the closed marker
  pairs of the text.
\<close>

definition closed_blocks :: "(string \<times> string) list \<Rightarrow> string" where
  "closed_blocks segs = concat (map (\<lambda>(v, t). v @ THINK_OPEN @ t @ THINK_CLOSE) segs)"

definition balanced_segments :: "(string \<times> string) list \<Rightarrow> bool" where
  "balanced_segments segs =
     list_all (\<lambda>(v, t). \<not> includes_str v THINK_OPEN \<and> \<not> includes_str t THINK_CLOSE) segs"

section \<open>The vector store client (server/src/ai/lanceClient.ts)\<close>

text \<open>
  The source computes with the runtime's numbers, IEEE doubles. Their arithmetic is a
  parameter of the model: \<open>'f\<close> is the type of the doubles other than NaN, in their
  order, and an \<open>arithmetic\<close> gives the constants 0, 1 and 2 and the rounded product,
  quotient and difference. The order of \<open>'f\<close> is the comparison \<open><\<close> of the source and
  its \<open>max\<close> is \<open>Math.max\<close>. The three expressions evaluated below, \<open>d * d\<close>, \<open>x / 2\<close> and
  \<open>1 - y\<close>, give no NaN on arguments that are not NaN.
\<close>

record 'f arithmetic =
  num_zero :: 'f
  num_one :: 'f
  num_two :: 'f
  num_mul :: "'f \<Rightarrow> 'f \<Rightarrow> 'f"
  num_div :: "'f \<Rightarrow> 'f \<Rightarrow> 'f"
  num_sub :: "'f \<Rightarrow> 'f \<Rightarrow> 'f"

text \<open>
  A row of the table is a \<open>LanceSchema\<close> object; the optional extra metadata fields are
  left out. A search hit is a row with its \<open>_distance\<close>, which is \<open>None\<close> when the field
  is missing or NaN.
\<close>

record DocumentMetadata =
  title :: string
  created_at :: int
  updated_at :: int

record 'f LanceSchema =
  row_id :: string
  vector :: "'f list"
  row_text :: string
  row_title :: string
  row_created_at :: int
  row_updated_at :: int

record 'f lance_hit = "'f LanceSchema" +
  distance :: "'f option"

record 'f SearchResult =
  sr_id :: string
  sr_text :: string
  metadata :: DocumentMetadata
  score :: 'f

text \<open>
  The module's global state: whether \<open>db\<close>, \<open>table\<close> and \<open>embeddingPipeline\<close> are set
  (not \<open>null\<close>), and the table \<open>knowledge_base\<close> as the database directory holds it
  (\<open>None\<close> while it does not exist).
\<close>

record 'f lance_state =
  db :: bool
  table :: bool
  embeddingPipeline :: bool
  stored :: "'f LanceSchema list option"

text \<open>
  The external services: the runtime's arithmetic, the embedding pipeline's output for a
  text, the table's nearest-neighbour search (\<open>table.search(v).limit(n).toArray()\<close>), the
  table's \<open>delete\<close> for a predicate string (the rows it leaves, or \<open>None\<close> when it
  raises), and whether loading the pipeline and connecting to the database succeed.
\<close>

record 'f lance_env =
  arith :: "'f arithmetic"
  embed :: "string \<Rightarrow> 'f list"
  nearest :: "'f LanceSchema list \<Rightarrow> 'f list \<Rightarrow> int \<Rightarrow> 'f lance_hit list"
  delete_where :: "string \<Rightarrow> 'f LanceSchema list \<Rightarrow> 'f LanceSchema list option"
  pipeline_loads :: bool
  connects :: bool

text \<open>The predicate the source builds from an id by splicing it between apostrophes:
  \<open>id = '${id}'\<close>.\<close>

definition id_predicate :: "string \<Rightarrow> string" where
  "id_predicate ident = ''id = '' @ [CHR 0x27] @ ident @ [CHR 0x27]"

definition initLanceDB ::
  "'f lance_env \<Rightarrow> 'f lance_state \<Rightarrow> 'f lance_state \<times> (error + unit)" where
  "initLanceDB env st =
     (if \<not> embeddingPipeline st \<and> \<not> pipeline_loads env then (st, Inl InitializationFailure)
      else
        (let st1 = st\<lparr>embeddingPipeline := True\<rparr>
         in if \<not> connects env then (st1, Inl InitializationFailure)
            else
              (let st2 = st1\<lparr>db := True\<rparr>
               in case stored st2 of
                    Some _ \<Rightarrow> (st2\<lparr>table := True\<rparr>, Inr ())
                  | None \<Rightarrow> (st2, Inr ()))))"

definition generateEmbedding ::
  "'f lance_env \<Rightarrow> 'f lance_state \<Rightarrow> string \<Rightarrow> error + 'f list" where
  "generateEmbedding env st txt =
     (if \<not> embeddingPipeline st then Inl EmbeddingNotInitialized else Inr (embed env txt))"

text \<open>
  \<open>addDocument\<close>. When \<open>table\<close> is not set, the stored table is opened if it exists, and
  otherwise created with the record as its first row, which ends the call. The \<open>delete\<close>
  for the id's predicate, whose failure is ignored, and the insertion of the record
  follow.
\<close>

definition addDocument ::
  "'f lance_env \<Rightarrow> 'f lance_state \<Rightarrow> string \<Rightarrow> string \<Rightarrow> DocumentMetadata
     \<Rightarrow> 'f lance_state \<times> (error + unit)" where
  "addDocument env st ident txt meta =
     (case (if \<not> db st then initLanceDB env st else (st, Inr ())) of
        (st1, Inl e) \<Rightarrow> (st1, Inl e)
      | (st1, Inr _) \<Rightarrow>
          if \<not> db st1 then (st1, Inl LanceNotInitialized)
          else
            (case generateEmbedding env st1 txt of
               Inl e \<Rightarrow> (st1, Inl e)
             | Inr v \<Rightarrow>
                 (let record = \<lparr>row_id = ident, vector = v, row_text = txt,
                        row_title = title meta, row_created_at = created_at meta,
                        row_updated_at = updated_at meta\<rparr>
                  in if \<not> table st1 \<and> stored st1 = None
                     then (st1\<lparr>table := True, stored := Some [record]\<rparr>, Inr ())
                     else
                       (st1\<lparr>table := True,
                            stored := map_option
                              (\<lambda>rows. (case delete_where env (id_predicate ident) rows of
                                         None \<Rightarrow> rows
                                       | Some remaining \<Rightarrow> remaining) @ [record])
                              (stored st1)\<rparr>,
                        Inr ()))))"

definition deleteDocument ::
  "'f lance_env \<Rightarrow> 'f lance_state \<Rightarrow> string \<Rightarrow> error + 'f lance_state" where
  "deleteDocument env st ident =
     (if \<not> table st then Inr st
      else case stored st of
             None \<Rightarrow> Inr st
           | Some rows \<Rightarrow>
               (case delete_where env (id_predicate ident) rows of
                  None \<Rightarrow> Inl DeleteFailure
                | Some remaining \<Rightarrow> Inr (st\<lparr>stored := Some remaining\<rparr>)))"

text \<open>The similarity computed from a hit's distance: \<open>dist || 0\<close>, then
  \<open>Math.max(0, 1 - (l2_dist * l2_dist) / 2)\<close>, in the runtime's arithmetic.\<close>

definition score_of :: "'f::linorder arithmetic \<Rightarrow> 'f option \<Rightarrow> 'f" where
  "score_of ar dst =
     (let l2_dist = (case dst of None \<Rightarrow> num_zero ar | Some d \<Rightarrow> d)
      in max (num_zero ar)
           (num_sub ar (num_one ar) (num_div ar (num_mul ar l2_dist l2_dist) (num_two ar))))"

text \<open>\<open>dist || 0\<close>: a distance that is missing or NaN counts as 0.\<close>

definition distance_or_zero :: "'f arithmetic \<Rightarrow> 'f option \<Rightarrow> 'f" where
  "distance_or_zero ar dst = (case dst of None \<Rightarrow> num_zero ar | Some d \<Rightarrow> d)"

text \<open>
  What the properties of the scores need of the arithmetic, each a fact of the doubles'
  rounded operations: 0 is not above 1; a square is not negative; squaring keeps the
  order of numbers that are not negative; halving keeps the order and leaves 0;
  subtracting from 1 reverses the order and \<open>1 - 0\<close> is 1.
\<close>

definition monotone_rounding :: "'f::linorder arithmetic \<Rightarrow> bool" where
  "monotone_rounding ar =
     (num_zero ar \<le> num_one ar
      \<and> (\<forall>x. num_zero ar \<le> num_mul ar x x)
      \<and> (\<forall>x y. num_zero ar \<le> x \<and> x \<le> y \<longrightarrow> num_mul ar x x \<le> num_mul ar y y)
      \<and> (\<forall>x y. x \<le> y \<longrightarrow> num_div ar x (num_two ar) \<le> num_div ar y (num_two ar))
      \<and> num_div ar (num_zero ar) (num_two ar) = num_zero ar
      \<and> (\<forall>x y. x \<le> y \<longrightarrow> num_sub ar (num_one ar) y \<le> num_sub ar (num_one ar) x)
      \<and> num_sub ar (num_one ar) (num_zero ar) = num_one ar)"

text \<open>The \<open>for\<close> loop of \<open>queryDocuments\<close> over the hits, in their order.\<close>

fun collect_results ::
  "'f::linorder arithmetic \<Rightarrow> 'f lance_hit list \<Rightarrow> 'f \<Rightarrow> 'f SearchResult list" where
  "collect_results ar [] minSimilarity = []"
| "collect_results ar (r # results) minSimilarity =
     (if score_of ar (distance r) < minSimilarity then collect_results ar results minSimilarity
      else \<lparr>sr_id = row_id r, sr_text = row_text r,
            metadata = \<lparr>title = row_title r, created_at = row_created_at r,
                         updated_at = row_updated_at r\<rparr>,
            score = score_of ar (distance r)\<rparr>
           # collect_results ar results minSimilarity)"

definition queryDocuments ::
  "'f::linorder lance_env \<Rightarrow> 'f lance_state \<Rightarrow> string \<Rightarrow> int \<Rightarrow> 'f
     \<Rightarrow> error + 'f SearchResult list" where
  "queryDocuments env st queryText limit minSimilarity =
     (if \<not> table st then Inr []
      else case generateEmbedding env st queryText of
             Inl e \<Rightarrow> Inl e
           | Inr queryVector \<Rightarrow>
               Inr (collect_results (arith env)
                      (nearest env (case stored st of None \<Rightarrow> [] | Some rows \<Rightarrow> rows)
                         queryVector limit)
                      minSimilarity))"

definition isLanceReady :: "'f lance_state \<Rightarrow> bool" where
  "isLanceReady st = db st"

section \<open>The message store (server/src/db/sqlite.ts)\<close>

record StoredMessage =
  msg_id :: string
  role :: string
  content_of :: string
  timestamp :: string

text \<open>A row of table \<open>messages\<close>, and a row of table \<open>chat_bin\<close>.\<close>

record message_row = StoredMessage +
  session_id :: string

record bin_row = message_row +
  archived_at :: string

record database =
  messages :: "message_row list"
  chat_bin :: "bin_row list"

record 'f KnowledgeConfig =
  maxDocuments :: int
  similarityThreshold :: 'f
  maxContextLength :: int

text \<open>\<open>LIMIT n\<close>: a negative \<open>n\<close> is no limit.\<close>

definition sql_limit :: "int \<Rightarrow> 'a list \<Rightarrow> 'a list" where
  "sql_limit n rows = (if n < 0 then rows else take (nat n) rows)"

definition getMessages :: "database option \<Rightarrow> string \<Rightarrow> int \<Rightarrow> StoredMessage list" where
  "getMessages d sessionId limit =
     (case d of
        None \<Rightarrow> []
      | Some dbase \<Rightarrow>
          rev (map (\<lambda>row. \<lparr>msg_id = msg_id row, role = role row, content_of = content_of row,
                           timestamp = timestamp row\<rparr>)
                 (sql_limit limit
                    (rev (sort_key timestamp
                       (filter (\<lambda>row. session_id row = sessionId) (messages dbase)))))))"

text \<open>Inserting rows into \<open>chat_bin\<close>, whose \<open>id\<close> is the primary key: a row whose id is
  already there makes the statement fail, and the table is left as it was.\<close>

fun insert_bin :: "bin_row list \<Rightarrow> bin_row list \<Rightarrow> error + bin_row list" where
  "insert_bin tbl [] = Inr tbl"
| "insert_bin tbl (row # rows) =
     (if msg_id row \<in> set (map msg_id tbl) then Inl SqliteConstraint
      else insert_bin (tbl @ [row]) rows)"

definition addMessage :: "database option \<Rightarrow> string \<Rightarrow> StoredMessage \<Rightarrow> error + database option" where
  "addMessage d sessionId msg =
     (case d of
        None \<Rightarrow> Inr None
      | Some dbase \<Rightarrow>
          if msg_id msg \<in> set (map msg_id (messages dbase)) then Inl SqliteConstraint
          else Inr (Some (dbase\<lparr>messages := messages dbase
                 @ [\<lparr>msg_id = msg_id msg, role = role msg, content_of = content_of msg,
                      timestamp = timestamp msg, session_id = sessionId\<rparr>]\<rparr>)))"

definition to_bin :: "string \<Rightarrow> message_row \<Rightarrow> bin_row" where
  "to_bin archivedAt row =
     \<lparr>msg_id = msg_id row, role = role row, content_of = content_of row,
      timestamp = timestamp row, session_id = session_id row, archived_at = archivedAt\<rparr>"

text \<open>\<open>archiveSession\<close>; \<open>archivedAt\<close> is the clock's reading.\<close>

definition archiveSession :: "database option \<Rightarrow> string \<Rightarrow> string \<Rightarrow> error + database option" where
  "archiveSession d archivedAt sessionId =
     (case d of
        None \<Rightarrow> Inr None
      | Some dbase \<Rightarrow>
          (case insert_bin (chat_bin dbase)
                  (map (to_bin archivedAt)
                     (filter (\<lambda>row. session_id row = sessionId) (messages dbase))) of
             Inl e \<Rightarrow> Inl e
           | Inr bin \<Rightarrow>
               Inr (Some (dbase\<lparr>chat_bin := bin,
                    messages := filter (\<lambda>row. session_id row \<noteq> sessionId) (messages dbase)\<rparr>))))"

section \<open>The context assembler (buildRAGPrompt)\<close>

record 'f RAGSource =
  src_id :: string
  src_title :: string
  similarity :: 'f

definition separator :: string where
  "separator = ''\<newline>\<newline>---\<newline>\<newline>''"

text \<open>\<open>title || "Untitled"\<close>\<close>

definition title_or_untitled :: "string \<Rightarrow> string" where
  "title_or_untitled t = (if t = [] then ''Untitled'' else t)"

definition candidatePart :: "'f SearchResult \<Rightarrow> string" where
  "candidatePart result =
     ''['' @ title_or_untitled (title (metadata result)) @ '']\<newline>'' @ sr_text result"

text \<open>The \<open>for\<close> loop over the results, from the current \<open>contextParts\<close> and
  \<open>sources\<close>; \<open>break\<close> leaves it with what was collected.\<close>

fun assemble_loop ::
  "'f SearchResult list \<Rightarrow> int \<Rightarrow> string list \<Rightarrow> 'f RAGSource list
     \<Rightarrow> string list \<times> 'f RAGSource list" where
  "assemble_loop [] maxLen contextParts sources = (contextParts, sources)"
| "assemble_loop (result # results) maxLen contextParts sources =
     (if int (length (join separator (contextParts @ [candidatePart result]))) > maxLen
      then (contextParts, sources)
      else assemble_loop results maxLen (contextParts @ [candidatePart result])
             (sources @ [\<lparr>src_id = sr_id result,
                           src_title = title_or_untitled (title (metadata result)),
                           similarity = score result\<rparr>]))"

text \<open>The context string and the sources built from the results of the search.\<close>

definition assemble_context ::
  "'f SearchResult list \<Rightarrow> int \<Rightarrow> string \<times> 'f RAGSource list" where
  "assemble_context results maxLen =
     (if length results > 0 then
        (case assemble_loop results maxLen [] [] of
           (contextParts, sources) \<Rightarrow> (join separator contextParts, sources))
      else ([], []))"

definition buildRAGPrompt ::
  "'f::linorder lance_env \<Rightarrow> 'f lance_state \<Rightarrow> 'f KnowledgeConfig \<Rightarrow> string
     \<Rightarrow> error + string \<times> 'f RAGSource list" where
  "buildRAGPrompt env st config query =
     (if isLanceReady st then
        (case queryDocuments env st query (maxDocuments config) (similarityThreshold config) of
           Inl e \<Rightarrow> Inl e
         | Inr results \<Rightarrow> Inr (assemble_context results (maxContextLength config)))
      else Inr ([], []))"

section \<open>The knowledge tool (server/src/ai/tools.ts)\<close>

text \<open>The message of a raised error; a failed search raises the embedding error
  only.\<close>

fun error_message :: "error \<Rightarrow> string" where
  "error_message EmbeddingNotInitialized = ''Embedding model not initialized''"
| "error_message LanceNotInitialized = ''LanceDB not initialized''"
| "error_message _ = ''failure''"

definition KnowledgeBaseTool_call ::
  "'f::linorder lance_env \<Rightarrow> 'f lance_state \<Rightarrow> 'f KnowledgeConfig \<Rightarrow> string \<Rightarrow> string" where
  "KnowledgeBaseTool_call env st config input =
     (if \<not> isLanceReady st then ''Knowledge base is not ready.''
      else
        (case queryDocuments env st input (maxDocuments config) (similarityThreshold config) of
           Inl e \<Rightarrow> ''Error searching knowledge base: '' @ error_message e
         | Inr results \<Rightarrow>
             if length results = 0 then ''No relevant information found in the knowledge base.''
             else join separator
                    (map (\<lambda>r. ''[Title: '' @ title_or_untitled (title (metadata r))
                               @ '']\<newline>Content: '' @ sr_text r) results)))"

section \<open>Concrete collaborators used in examples\<close>

text \<open>
  The examples compute with exact arithmetic on the reals. Every number in them is a
  multiple of a power of two of small size, on which the doubles' operations are exact, so
  the values are the ones the doubles give.
\<close>

definition exact_arithmetic :: "real arithmetic" where
  "exact_arithmetic =
     \<lparr>num_zero = 0, num_one = 1, num_two = 2,
      num_mul = (\<lambda>x y. x * y), num_div = (\<lambda>x y. x / y), num_sub = (\<lambda>x y. x - y)\<rparr>"

text \<open>
  A knowledge base holding one document, whose text contains the phrase the orchestrator
  tests for; the store reports it at distance 0 for every query.
\<close>

definition sentinel_document :: "real LanceSchema" where
  "sentinel_document =
     \<lparr>row_id = ''doc-1'', vector = [1, 0], row_text = ''No relevant information was lost when Zenlise moved.'',
      row_title = ''Zenlise migration'', row_created_at = 1, row_updated_at = 1\<rparr>"

definition ready_state :: "real LanceSchema list \<Rightarrow> real lance_state" where
  "ready_state rows = \<lparr>db = True, table = True, embeddingPipeline = True, stored = Some rows\<rparr>"

definition not_ready_state :: "real lance_state" where
  "not_ready_state = \<lparr>db = False, table = False, embeddingPipeline = False, stored = None\<rparr>"

text \<open>The state after a restart of the server: nothing is initialised, and the table
  stored by an earlier run holds the given rows.\<close>

definition restarted_state :: "real LanceSchema list \<Rightarrow> real lance_state" where
  "restarted_state rows = \<lparr>db = False, table = False, embeddingPipeline = False, stored = Some rows\<rparr>"

text \<open>External services that embed every text as the same unit vector, report the
  first \<open>n\<close> stored rows, each at distance \<open>d\<close>, and delete the rows whose id gives the
  predicate.\<close>

definition fixed_env :: "real option \<Rightarrow> bool \<Rightarrow> real lance_env" where
  "fixed_env d ok =
     \<lparr>arith = exact_arithmetic,
      embed = (\<lambda>_. [1, 0]),
      nearest = (\<lambda>rows v n. map (\<lambda>r. LanceSchema.extend r (lance_hit.fields d)) (take (nat n) rows)),
      delete_where = (\<lambda>predicate rows.
                        Some (filter (\<lambda>r. id_predicate (row_id r) \<noteq> predicate) rows)),
      pipeline_loads = ok, connects = ok\<rparr>"

text \<open>A generation service whose classifier call answers \<open>KNOWLEDGE\<close>, whose other
  single-shot calls return no string, and whose streamed answer is the context it was
  given, as one chunk.\<close>

definition echo_model :: chat_model where
  "echo_model =
     \<lparr>invoke = (\<lambda>messages. case messages of
                   SystemMessage ROUTER_PROMPT # _ \<Rightarrow> ContentString ''KNOWLEDGE''
                 | _ \<Rightarrow> ContentOther),
      stream = (\<lambda>messages. case messages of
                   SystemMessage (RESPONSE_PROMPT context query) # _ \<Rightarrow>
                     StreamEnds [ChunkString context]
                 | _ \<Rightarrow> StreamEnds [])\<rparr>"

definition zenlise_document :: "real LanceSchema" where
  "zenlise_document =
     \<lparr>row_id = ''doc-2'', vector = [1, 0], row_text = ''Zenlise is a tool.'',
      row_title = ''Zenlise'', row_created_at = 2, row_updated_at = 2\<rparr>"

definition hasinthaka_document :: "real LanceSchema" where
  "hasinthaka_document =
     \<lparr>row_id = ''doc-3'', vector = [0, 1], row_text = ''Hasinthaka built Zenbot.'',
      row_title = [], row_created_at = 3, row_updated_at = 3\<rparr>"

text \<open>External services that report the stored rows in their order, row \<open>i\<close> at the
  \<open>i\<close>-th of the given distances.\<close>

definition ranked_env :: "real option list \<Rightarrow> real lance_env" where
  "ranked_env ds =
     \<lparr>arith = exact_arithmetic,
      embed = (\<lambda>_. [1, 0]),
      nearest = (\<lambda>rows v n. take (nat n)
                   (map (\<lambda>(r, d). LanceSchema.extend r (lance_hit.fields d)) (zip rows ds))),
      delete_where = (\<lambda>predicate rows.
                        Some (filter (\<lambda>r. id_predicate (row_id r) \<noteq> predicate) rows)),
      pipeline_loads = True, connects = True\<rparr>"

definition example_results :: "real SearchResult list" where
  "example_results =
     [\<lparr>sr_id = ''doc-2'', sr_text = ''Zenlise is a tool.'',
       metadata = \<lparr>title = ''Zenlise'', created_at = 2, updated_at = 2\<rparr>, score = 0.96875\<rparr>,
      \<lparr>sr_id = ''doc-3'', sr_text = ''Hasinthaka built Zenbot.'',
       metadata = \<lparr>title = [], created_at = 3, updated_at = 3\<rparr>, score = 0.875\<rparr>]"

text \<open>A message store with two messages of one session, one of another, and one row
  archived earlier.\<close>

definition example_database :: database where
  "example_database =
     \<lparr>messages =
        [\<lparr>msg_id = ''msg_1'', role = ''user'', content_of = ''What is Zenlise?'',
          timestamp = ''2026-01-01T10:00:00.000Z'', session_id = ''session-1''\<rparr>,
         \<lparr>msg_id = ''msg_2'', role = ''assistant'', content_of = ''Zenlise is a tool.'',
          timestamp = ''2026-01-01T10:00:05.000Z'', session_id = ''session-1''\<rparr>,
         \<lparr>msg_id = ''msg_3'', role = ''user'', content_of = ''hello'',
          timestamp = ''2026-01-01T10:00:02.000Z'', session_id = ''session-2''\<rparr>],
      chat_bin =
        [\<lparr>msg_id = ''msg_0'', role = ''user'', content_of = ''hi'',
          timestamp = ''2025-12-31T09:00:00.000Z'', session_id = ''session-1'',
          archived_at = ''2025-12-31T09:30:00.000Z''\<rparr>]\<rparr>"

text \<open>A configuration as the configuration route stores it.\<close>

definition example_config :: "real KnowledgeConfig" where
  "example_config = \<lparr>maxDocuments = 3, similarityThreshold = 0.75, maxContextLength = 2000\<rparr>"

text \<open>A generation service that answers every single-shot call with \<open>r\<close> and every
  streamed call with \<open>s\<close>.\<close>

definition constant_model :: "invoke_result \<Rightarrow> stream_result \<Rightarrow> chat_model" where
  "constant_model r s = \<lparr>invoke = (\<lambda>_. r), stream = (\<lambda>_. s)\<rparr>"

text \<open>A generation service whose classifier call answers \<open>KNOWLEDGE\<close> and whose every
  other single-shot call answers \<open>r\<close>.\<close>

definition knowledge_model :: "invoke_result \<Rightarrow> stream_result \<Rightarrow> chat_model" where
  "knowledge_model r s =
     \<lparr>invoke = (\<lambda>messages. case messages of
                   SystemMessage ROUTER_PROMPT # _ \<Rightarrow> ContentString ''KNOWLEDGE''
                 | _ \<Rightarrow> r),
      stream = (\<lambda>_. s)\<rparr>"

section \<open>Intent classification\<close>

lemma off_topic_default:
  "\<not> includes_str ''OFF_TOPIC'' ''GREETING''" "\<not> includes_str ''OFF_TOPIC'' ''KNOWLEDGE''"
  by code_simp+

text \<open>
  Claim C1, as the code has it. For every query, history and generation service:
  when the classifier call returns a string, \<open>classifyIntent\<close> answers \<open>GREETING\<close> if the
  trimmed, upper-cased output contains \<open>GREETING\<close>; otherwise \<open>KNOWLEDGE\<close> if that output
  contains \<open>KNOWLEDGE\<close> or the lower-cased query contains one of the keywords
  \<open>hasinthaka\<close>, \<open>zenlise\<close>, \<open>zenbot\<close>; otherwise \<open>OFF_TOPIC\<close>. When the call returns
  content that is not a string, the answer is \<open>KNOWLEDGE\<close> if the query contains a
  keyword and \<open>OFF_TOPIC\<close> otherwise. When the call raises, \<open>classifyIntent\<close> raises: no
  fallback runs.
\<close>

theorem classifyIntent_cases:
  "(invoke m (router_messages query history) = ContentString out \<longrightarrow>
       classifyIntent m query history =
         Inr (if includes_str (toUpperCase (trim out)) ''GREETING'' then ''GREETING''
              else if includes_str (toUpperCase (trim out)) ''KNOWLEDGE'' \<or> mentions_keyword query
                   then ''KNOWLEDGE'' else ''OFF_TOPIC''))
   \<and> (invoke m (router_messages query history) = ContentOther \<longrightarrow>
       classifyIntent m query history =
         Inr (if mentions_keyword query then ''KNOWLEDGE'' else ''OFF_TOPIC''))
   \<and> (invoke m (router_messages query history) = InvokeThrows \<longrightarrow>
       classifyIntent m query history = Inl GenerationFailure)"
  by (auto simp: classifyIntent_def Let_def off_topic_default split: invoke_result.splits)

theorem classifyIntent_cases_witness:
  "classifyIntent (constant_model (ContentString ''off_topic'') (StreamEnds []))
      ''What is Zenlise?'' [] = Inr ''KNOWLEDGE''
   \<and> classifyIntent (constant_model ContentOther (StreamEnds [])) ''What is 2 + 2?'' []
      = Inr ''OFF_TOPIC''
   \<and> classifyIntent (constant_model InvokeThrows (StreamEnds [])) ''What is Zenlise?'' []
      = Inl GenerationFailure"
proof -
  have k1: "mentions_keyword ''What is Zenlise?''" by code_simp
  have k2: "\<not> mentions_keyword ''What is 2 + 2?''" by code_simp
  have o1: "\<not> includes_str (toUpperCase (trim ''off_topic'')) ''GREETING''" by code_simp
  have i1: "invoke (constant_model (ContentString ''off_topic'') (StreamEnds []))
      (router_messages ''What is Zenlise?'' []) = ContentString ''off_topic''"
    by (simp add: constant_model_def)
  have i2: "invoke (constant_model ContentOther (StreamEnds []))
      (router_messages ''What is 2 + 2?'' []) = ContentOther"
    by (simp add: constant_model_def)
  have i3: "invoke (constant_model InvokeThrows (StreamEnds []))
      (router_messages ''What is Zenlise?'' []) = InvokeThrows"
    by (simp add: constant_model_def)
  show ?thesis
    using classifyIntent_cases[of "constant_model (ContentString ''off_topic'') (StreamEnds [])"
        "''What is Zenlise?''" "[]" "''off_topic''"]
      classifyIntent_cases[of "constant_model ContentOther (StreamEnds [])"
        "''What is 2 + 2?''" "[]" "[]"]
      classifyIntent_cases[of "constant_model InvokeThrows (StreamEnds [])"
        "''What is Zenlise?''" "[]" "[]"]
      i1 i2 i3 k1 k2 o1
    by simp
qed

text \<open>
  Claim C1 as stated fails twice. The query \<open>Tell me about ZenBot\<close> contains a keyword,
  yet with a classifier output that mentions \<open>greeting\<close> the answer is \<open>GREETING\<close>; and
  when the classifier call raises, \<open>classifyIntent\<close> raises instead of answering.
\<close>

theorem classifyIntent_keyword_counterexample:
  "mentions_keyword ''Tell me about ZenBot''
   \<and> classifyIntent (constant_model (ContentString ''greeting'') (StreamEnds []))
        ''Tell me about ZenBot'' [] = Inr ''GREETING''
   \<and> classifyIntent (constant_model (ContentString ''greeting'') (StreamEnds []))
        ''Tell me about ZenBot'' [] \<noteq> Inr ''KNOWLEDGE''
   \<and> classifyIntent (constant_model InvokeThrows (StreamEnds []))
        ''Tell me about ZenBot'' [] = Inl GenerationFailure"
  by code_simp

section \<open>The orchestrator's failure handling\<close>

text \<open>
  Claim C2 at the input where the code departs from it: when the classifier call raises,
  \<open>runAgentStream\<close> has emitted the open marker and the first trace token, and the
  exception leaves it uncaught: \<open>classifyIntent\<close> is awaited before the \<open>try\<close> block is
  entered, so no apology is emitted and the marker stays open.
\<close>

theorem runAgentStream_classifier_failure:
  "invoke m (router_messages query history) = InvokeThrows \<Longrightarrow>
   runAgentStream m kb query history
     = ([''<think>'', ''Analyzing user intent...''], Inl GenerationFailure)"
  by (simp add: runAgentStream_def classifyIntent_def)

theorem runAgentStream_classifier_failure_witness:
  "runAgentStream (constant_model InvokeThrows (StreamEnds [ChunkString ''Hi!''])) (\<lambda>_. [])
      ''hello'' []
     = ([''<think>'', ''Analyzing user intent...''], Inl GenerationFailure)"
  using runAgentStream_classifier_failure[of
      "constant_model InvokeThrows (StreamEnds [ChunkString ''Hi!''])" "''hello''" "[]" "\<lambda>_. []"]
  by (simp add: constant_model_def)

text \<open>Once the intent is known, every failure is caught: the turn ends normally, with
  the empty string, or with the apology as its last token after the tokens already
  emitted.\<close>

lemma runAgentStream_catches_after_classification:
  assumes "classifyIntent m query history = Inr intent"
  shows "\<exists>tokens. runAgentStream m kb query history = (tokens, Inr [])
           \<or> (runAgentStream m kb query history
                 = (tokens @ ['' Error processing request.'', ''</think>\<newline>\<newline>'', errResponse],
                    Inr errResponse))"
proof -
  obtain tokens r where b: "agent_try_body m kb query history intent = (tokens, r)"
    by (cases "agent_try_body m kb query history intent")
  show ?thesis
    using assms b by (cases r) (auto simp: runAgentStream_def Let_def)
qed

section \<open>Query refinement\<close>

text \<open>
  Claim C7, as the code has it. When the refiner's call returns content that is not a
  string, \<open>generateSearchQuery\<close> returns the original query unchanged; when it returns a
  string, the result is that string trimmed, also when it is empty. When the call raises,
  \<open>generateSearchQuery\<close> raises; in a turn classified \<open>KNOWLEDGE\<close> the orchestrator then
  catches the failure, emits the error trace, the close marker and the apology, and the
  turn ends without retrieval or generation.
\<close>

theorem generateSearchQuery_cases:
  "(invoke m (search_query_messages query history) = ContentOther \<longrightarrow>
       generateSearchQuery m query history = Inr query)
   \<and> (invoke m (search_query_messages query history) = ContentString out \<longrightarrow>
       generateSearchQuery m query history = Inr (trim out))
   \<and> (invoke m (search_query_messages query history) = InvokeThrows \<longrightarrow>
       generateSearchQuery m query history = Inl GenerationFailure
       \<and> (classifyIntent m query history = Inr ''KNOWLEDGE'' \<longrightarrow>
            runAgentStream m kb query history
              = ([''<think>'', ''Analyzing user intent...'', '' Intent identified: KNOWLEDGE.'',
                  '' Refining search query...'', '' Error processing request.'',
                  ''</think>\<newline>\<newline>'', errResponse],
                 Inr errResponse)))"
  by (auto simp: generateSearchQuery_def runAgentStream_def agent_try_body_def Let_def)

theorem generateSearchQuery_cases_witness:
  "generateSearchQuery (knowledge_model ContentOther (StreamEnds [])) ''how does it work'' []
      = Inr ''how does it work''
   \<and> generateSearchQuery (knowledge_model (ContentString '' Zenlise workflow '') (StreamEnds []))
        ''how does it work'' [] = Inr ''Zenlise workflow''
   \<and> runAgentStream (knowledge_model InvokeThrows (StreamEnds [ChunkString ''answer'']))
        (\<lambda>_. ''doc'') ''how does it work'' []
      = ([''<think>'', ''Analyzing user intent...'', '' Intent identified: KNOWLEDGE.'',
          '' Refining search query...'', '' Error processing request.'',
          ''</think>\<newline>\<newline>'', errResponse],
         Inr errResponse)"
proof -
  have i: "invoke (knowledge_model r s) (search_query_messages q []) = r" for r s q
    by (simp add: knowledge_model_def search_query_messages_def)
  have c: "classifyIntent (knowledge_model InvokeThrows (StreamEnds [ChunkString ''answer'']))
      ''how does it work'' [] = Inr ''KNOWLEDGE''"
    by code_simp
  have t: "trim '' Zenlise workflow '' = ''Zenlise workflow''" by code_simp
  show ?thesis
    using generateSearchQuery_cases[of "knowledge_model ContentOther (StreamEnds [])"
        "''how does it work''" "[]" "[]" "\<lambda>_. []"]
      generateSearchQuery_cases[of "knowledge_model (ContentString '' Zenlise workflow '') (StreamEnds [])"
        "''how does it work''" "[]" "'' Zenlise workflow ''" "\<lambda>_. []"]
      generateSearchQuery_cases[of "knowledge_model InvokeThrows (StreamEnds [ChunkString ''answer''])"
        "''how does it work''" "[]" "[]" "\<lambda>_. ''doc''"]
      i c t
    by simp
qed

text \<open>
  Claim C7 as stated fails: when the refiner's call raises, the refiner raises instead of
  returning the query, and the turn ends with the apology; and an output of blanks is
  returned as the empty query.
\<close>

theorem generateSearchQuery_failure_counterexample:
  "generateSearchQuery (constant_model InvokeThrows (StreamEnds [])) ''how does it work'' []
      = Inl GenerationFailure
   \<and> generateSearchQuery (constant_model InvokeThrows (StreamEnds [])) ''how does it work'' []
      \<noteq> Inr ''how does it work''
   \<and> generateSearchQuery (constant_model (ContentString ''  '') (StreamEnds [])) ''how does it work'' []
      = Inr []
   \<and> runAgentStream (knowledge_model InvokeThrows (StreamEnds [ChunkString ''answer'']))
        (\<lambda>_. ''doc'') ''how does it work'' []
      = ([''<think>'', ''Analyzing user intent...'', '' Intent identified: KNOWLEDGE.'',
          '' Refining search query...'', '' Error processing request.'',
          ''</think>\<newline>\<newline>'',
          ''I apologize, but I encountered an error while processing your request.''],
         Inr ''I apologize, but I encountered an error while processing your request.'')"
  by code_simp

section \<open>Readiness of the vector store\<close>

text \<open>
  Claim C6, as the code has it. While \<open>table\<close> is not set, a search returns the empty
  list and a removal returns with the state unchanged; neither raises. While \<open>db\<close> is
  not set, the knowledge tool answers with the string \<open>Knowledge base is not ready.\<close>
  and the context assembler returns the empty context. An upsert first runs the
  initialisation: it raises the initialisation's failure when that fails; otherwise it
  carries on, returns normally with \<open>db\<close> and \<open>table\<close> set, and, from a state whose table
  handle is set only when the table is stored and with a store whose \<open>delete\<close> for the
  id's predicate removes the rows with that id, the stored table afterwards holds the
  earlier rows with other ids followed by the new record.
\<close>

theorem not_ready_operations:
  "(\<not> table st \<longrightarrow>
      queryDocuments env st queryText limit minSimilarity = Inr []
      \<and> deleteDocument env st ident = Inr st)
   \<and> (\<not> db st \<longrightarrow>
      KnowledgeBaseTool_call env st config queryText = ''Knowledge base is not ready.''
      \<and> buildRAGPrompt env st config queryText = Inr ([], []))
   \<and> (\<not> db st \<and> (\<not> connects env \<or> \<not> embeddingPipeline st \<and> \<not> pipeline_loads env) \<longrightarrow>
      snd (addDocument env st ident doc meta) = Inl InitializationFailure)
   \<and> (\<not> db st \<and> connects env \<and> (embeddingPipeline st \<or> pipeline_loads env) \<longrightarrow>
      snd (addDocument env st ident doc meta) = Inr ()
      \<and> db (fst (addDocument env st ident doc meta))
      \<and> table (fst (addDocument env st ident doc meta))
      \<and> ((table st \<longrightarrow> stored st \<noteq> None)
           \<and> (\<forall>rows. stored st = Some rows \<longrightarrow>
                  delete_where env (id_predicate ident) rows
                    = Some (filter (\<lambda>r. row_id r \<noteq> ident) rows)) \<longrightarrow>
           stored (fst (addDocument env st ident doc meta))
             = Some (filter (\<lambda>r. row_id r \<noteq> ident) (case stored st of None \<Rightarrow> [] | Some rows \<Rightarrow> rows)
                     @ [\<lparr>row_id = ident, vector = embed env doc, row_text = doc,
                          row_title = title meta, row_created_at = created_at meta,
                          row_updated_at = updated_at meta\<rparr>])))"
  by (auto simp: queryDocuments_def deleteDocument_def KnowledgeBaseTool_call_def
      buildRAGPrompt_def isLanceReady_def addDocument_def initLanceDB_def
      generateEmbedding_def Let_def split: option.splits)

theorem not_ready_operations_witness:
  "queryDocuments (fixed_env (Some 0) True) not_ready_state ''zenlise'' 3 0.75 = Inr []
   \<and> KnowledgeBaseTool_call (fixed_env (Some 0) True) not_ready_state example_config ''zenlise''
      = ''Knowledge base is not ready.''
   \<and> snd (addDocument (fixed_env (Some 0) False) not_ready_state ''doc-1'' ''Zenlise is a tool.''
        \<lparr>title = ''Zenlise'', created_at = 1, updated_at = 1\<rparr>) = Inl InitializationFailure
   \<and> snd (addDocument (fixed_env (Some 0) True) not_ready_state ''doc-1'' ''Zenlise is a tool.''
        \<lparr>title = ''Zenlise'', created_at = 1, updated_at = 1\<rparr>) = Inr ()
   \<and> stored (fst (addDocument (fixed_env (Some 0) True) not_ready_state ''doc-1''
        ''Zenlise is a tool.'' \<lparr>title = ''Zenlise'', created_at = 1, updated_at = 1\<rparr>))
      = Some [\<lparr>row_id = ''doc-1'', vector = [1, 0], row_text = ''Zenlise is a tool.'',
               row_title = ''Zenlise'', row_created_at = 1, row_updated_at = 1\<rparr>]
   \<and> stored (fst (addDocument (fixed_env (Some 0) True)
        (restarted_state [sentinel_document, zenlise_document]) ''doc-1''
        ''Zenlise is a tool.'' \<lparr>title = ''Zenlise'', created_at = 1, updated_at = 1\<rparr>))
      = Some [zenlise_document,
              \<lparr>row_id = ''doc-1'', vector = [1, 0], row_text = ''Zenlise is a tool.'',
               row_title = ''Zenlise'', row_created_at = 1, row_updated_at = 1\<rparr>]"
  using not_ready_operations[where st = "restarted_state [sentinel_document, zenlise_document]"
      and env = "fixed_env (Some 0) True"
      and queryText = "''zenlise''" and limit = 3 and minSimilarity = "0.75" and ident = "''doc-1''"
      and config = example_config and doc = "''Zenlise is a tool.''"
      and meta = "\<lparr>title = ''Zenlise'', created_at = 1, updated_at = 1\<rparr>"]
    not_ready_operations[where st = not_ready_state and env = "fixed_env (Some 0) True"
      and queryText = "''zenlise''" and limit = 3 and minSimilarity = "0.75" and ident = "''doc-1''"
      and config = example_config and doc = "''Zenlise is a tool.''"
      and meta = "\<lparr>title = ''Zenlise'', created_at = 1, updated_at = 1\<rparr>"]
    not_ready_operations[where st = not_ready_state and env = "fixed_env (Some 0) False"
      and queryText = "''zenlise''" and limit = 3 and minSimilarity = "0.75" and ident = "''doc-1''"
      and config = example_config and doc = "''Zenlise is a tool.''"
      and meta = "\<lparr>title = ''Zenlise'', created_at = 1, updated_at = 1\<rparr>"]
  by (simp add: not_ready_state_def restarted_state_def fixed_env_def id_predicate_def
      sentinel_document_def zenlise_document_def)

text \<open>
  Claim C6 as stated fails: on the state in which nothing is initialised, the search
  returns the empty list, the removal returns normally, the upsert initialises the store
  and succeeds, and the tool answers with a string; none of them raises.
\<close>

theorem not_ready_counterexample:
  "queryDocuments (fixed_env (Some 0) True) not_ready_state ''zenlise'' 3 0.75 = Inr []
   \<and> deleteDocument (fixed_env (Some 0) True) not_ready_state ''doc-1'' = Inr not_ready_state
   \<and> snd (addDocument (fixed_env (Some 0) True) not_ready_state ''doc-1'' ''Zenlise is a tool.''
        \<lparr>title = ''Zenlise'', created_at = 1, updated_at = 1\<rparr>) = Inr ()
   \<and> KnowledgeBaseTool_call (fixed_env (Some 0) True) not_ready_state example_config ''zenlise''
      = ''Knowledge base is not ready.''"
  by code_simp


section \<open>Similarity scores\<close>

lemma exact_arithmetic_monotone: "monotone_rounding exact_arithmetic"
  by (simp add: monotone_rounding_def exact_arithmetic_def mult_mono divide_right_mono)

lemma score_of_bounds:
  assumes "monotone_rounding ar"
  shows "num_zero ar \<le> score_of ar d \<and> score_of ar d \<le> num_one ar"
proof -
  let ?x = "case d of None \<Rightarrow> num_zero ar | Some d \<Rightarrow> d"
  from assms have "num_zero ar \<le> num_mul ar ?x ?x" by (simp add: monotone_rounding_def)
  with assms have "num_div ar (num_zero ar) (num_two ar) \<le> num_div ar (num_mul ar ?x ?x) (num_two ar)"
    unfolding monotone_rounding_def by blast
  with assms have "num_zero ar \<le> num_div ar (num_mul ar ?x ?x) (num_two ar)"
    by (simp add: monotone_rounding_def)
  with assms have "num_sub ar (num_one ar) (num_div ar (num_mul ar ?x ?x) (num_two ar))
      \<le> num_sub ar (num_one ar) (num_zero ar)"
    unfolding monotone_rounding_def by blast
  with assms have "num_sub ar (num_one ar) (num_div ar (num_mul ar ?x ?x) (num_two ar)) \<le> num_one ar"
    by (simp add: monotone_rounding_def)
  moreover from assms have "num_zero ar \<le> num_one ar" by (simp add: monotone_rounding_def)
  ultimately show ?thesis by (simp add: score_of_def Let_def)
qed

lemma score_of_antitone:
  assumes "monotone_rounding ar"
    and "num_zero ar \<le> distance_or_zero ar x" and "distance_or_zero ar x \<le> distance_or_zero ar y"
  shows "score_of ar y \<le> score_of ar x"
proof -
  let ?x = "distance_or_zero ar x" and ?y = "distance_or_zero ar y"
  from assms have "num_mul ar ?x ?x \<le> num_mul ar ?y ?y"
    unfolding monotone_rounding_def by blast
  with assms(1) have "num_div ar (num_mul ar ?x ?x) (num_two ar) \<le> num_div ar (num_mul ar ?y ?y) (num_two ar)"
    unfolding monotone_rounding_def by blast
  with assms(1) have "num_sub ar (num_one ar) (num_div ar (num_mul ar ?y ?y) (num_two ar))
      \<le> num_sub ar (num_one ar) (num_div ar (num_mul ar ?x ?x) (num_two ar))"
    unfolding monotone_rounding_def by blast
  then show ?thesis
    unfolding score_of_def distance_or_zero_def Let_def by (rule max.mono[OF order_refl])
qed

lemma collect_results_score:
  "map score (collect_results ar hits m)
     = map (\<lambda>h. score_of ar (distance h)) (filter (\<lambda>h. \<not> score_of ar (distance h) < m) hits)"
  by (induction hits) simp_all

lemma collect_results_id:
  "map sr_id (collect_results ar hits m)
     = map row_id (filter (\<lambda>h. \<not> score_of ar (distance h) < m) hits)"
  by (induction hits) simp_all

lemma collect_results_text:
  "map sr_text (collect_results ar hits m)
     = map row_text (filter (\<lambda>h. \<not> score_of ar (distance h) < m) hits)"
  by (induction hits) simp_all

lemma collect_results_set:
  "r \<in> set (collect_results ar hits m) \<Longrightarrow>
     \<exists>h\<in>set hits. score r = score_of ar (distance h) \<and> \<not> score_of ar (distance h) < m
        \<and> sr_id r = row_id h \<and> sr_text r = row_text h"
  by (induction hits) (auto split: if_splits)

lemma collect_results_sorted:
  assumes "monotone_rounding ar"
    and "sorted_wrt (\<lambda>a b. num_zero ar \<le> distance_or_zero ar (distance a)
            \<and> distance_or_zero ar (distance a) \<le> distance_or_zero ar (distance b)) hits"
  shows "sorted_wrt (\<lambda>a b. score b \<le> score a) (collect_results ar hits m)"
proof -
  from assms(2) have "sorted_wrt (\<lambda>a b. score_of ar (distance b) \<le> score_of ar (distance a)) hits"
    by (rule sorted_wrt_mono_rel[rotated]) (simp add: score_of_antitone[OF assms(1)])
  then have "sorted_wrt (\<lambda>a b. score_of ar (distance b) \<le> score_of ar (distance a))
      (filter (\<lambda>h. \<not> score_of ar (distance h) < m) hits)"
    by (rule sorted_wrt_filter)
  then have "sorted_wrt (\<lambda>x y. y \<le> x)
      (map (\<lambda>h. score_of ar (distance h)) (filter (\<lambda>h. \<not> score_of ar (distance h) < m) hits))"
    by (simp add: sorted_wrt_map)
  then have "sorted_wrt (\<lambda>x y. y \<le> x) (map score (collect_results ar hits m))"
    by (simp only: collect_results_score)
  then show ?thesis by (simp add: sorted_wrt_map)
qed

text \<open>
  Claim C8. In every arithmetic whose rounding is monotone, as the doubles' is: when the
  table is open and a search returns, every result's score lies between 0 and 1 and is
  not below \<open>minSimilarity\<close>; the results are the hits whose score is not below
  \<open>minSimilarity\<close>, in the store's order, each with the score \<open>max(0, 1 - d * d / 2)\<close>
  computed in that arithmetic from its distance \<open>d\<close> (0 when the distance is missing); and
  when the store reports its hits nearest first, with distances that are not negative,
  the scores do not increase along the results.
\<close>

theorem queryDocuments_scores:
  assumes "monotone_rounding (arith env)"
    and "queryDocuments env st queryText limit minSimilarity = Inr results"
    and "table st"
  shows "(\<forall>r\<in>set results. num_zero (arith env) \<le> score r \<and> score r \<le> num_one (arith env)
            \<and> minSimilarity \<le> score r)
    \<and> (let ar = arith env;
            hits = nearest env (case stored st of None \<Rightarrow> [] | Some rows \<Rightarrow> rows)
                      (embed env queryText) limit;
            kept = filter (\<lambda>h. \<not> score_of ar (distance h) < minSimilarity) hits
        in map sr_id results = map row_id kept
           \<and> map score results
               = map (\<lambda>h. max (num_zero ar)
                        (num_sub ar (num_one ar)
                           (num_div ar (num_mul ar (distance_or_zero ar (distance h))
                                                   (distance_or_zero ar (distance h)))
                              (num_two ar)))) kept
           \<and> (sorted_wrt (\<lambda>a b. num_zero ar \<le> distance_or_zero ar (distance a)
                   \<and> distance_or_zero ar (distance a) \<le> distance_or_zero ar (distance b)) hits
                \<longrightarrow> sorted_wrt (\<lambda>a b. score b \<le> score a) results))"
proof -
  let ?ar = "arith env"
  let ?hits = "nearest env (case stored st of None \<Rightarrow> [] | Some rows \<Rightarrow> rows)
                      (embed env queryText) limit"
  from assms(2,3) have res: "results = collect_results ?ar ?hits minSimilarity"
    by (auto simp: queryDocuments_def generateEmbedding_def split: if_splits)
  have f: "score_of ?ar x = max (num_zero ?ar) (num_sub ?ar (num_one ?ar)
      (num_div ?ar (num_mul ?ar (distance_or_zero ?ar x) (distance_or_zero ?ar x)) (num_two ?ar)))" for x
    by (simp add: score_of_def distance_or_zero_def Let_def)
  have 1: "\<forall>r\<in>set results. num_zero ?ar \<le> score r \<and> score r \<le> num_one ?ar \<and> minSimilarity \<le> score r"
  proof
    fix r assume "r \<in> set results"
    then have "r \<in> set (collect_results ?ar ?hits minSimilarity)" using res by simp
    from collect_results_set[OF this]
    obtain h :: "'a lance_hit" where "score r = score_of ?ar (distance h)"
      "\<not> score_of ?ar (distance h) < minSimilarity"
      by blast
    then show "num_zero ?ar \<le> score r \<and> score r \<le> num_one ?ar \<and> minSimilarity \<le> score r"
      using score_of_bounds[OF assms(1), of "distance h"] by simp
  qed
  have 2: "map sr_id results = map row_id (filter (\<lambda>h. \<not> score_of ?ar (distance h) < minSimilarity) ?hits)"
    by (simp only: res collect_results_id)
  have 3: "map score results = map (\<lambda>h. max (num_zero ?ar) (num_sub ?ar (num_one ?ar)
      (num_div ?ar (num_mul ?ar (distance_or_zero ?ar (distance h)) (distance_or_zero ?ar (distance h)))
         (num_two ?ar))))
      (filter (\<lambda>h. \<not> score_of ?ar (distance h) < minSimilarity) ?hits)"
    unfolding res collect_results_score using f by simp
  have 4: "sorted_wrt (\<lambda>a b. num_zero ?ar \<le> distance_or_zero ?ar (distance a)
                   \<and> distance_or_zero ?ar (distance a) \<le> distance_or_zero ?ar (distance b)) ?hits
                \<longrightarrow> sorted_wrt (\<lambda>a b. score b \<le> score a) results"
    unfolding res using collect_results_sorted[OF assms(1)] by blast
  show ?thesis using 1 2 3 4 by (simp add: Let_def)
qed

theorem queryDocuments_scores_witness:
  "monotone_rounding (arith (ranked_env [Some 0.25, Some 0.5, Some 1.5]))
   \<and> table (ready_state [zenlise_document, hasinthaka_document, sentinel_document])
   \<and> queryDocuments (ranked_env [Some 0.25, Some 0.5, Some 1.5])
        (ready_state [zenlise_document, hasinthaka_document, sentinel_document])
        ''zenlise'' 3 0.75 = Inr example_results
   \<and> list_all (\<lambda>r. 0 \<le> score r \<and> score r \<le> 1 \<and> 0.75 \<le> score r) example_results"
proof -
  have m: "monotone_rounding (arith (ranked_env [Some 0.25, Some 0.5, Some 1.5]))"
    by (simp add: ranked_env_def exact_arithmetic_monotone)
  have t: "table (ready_state [zenlise_document, hasinthaka_document, sentinel_document])"
    by (simp add: ready_state_def)
  have q: "queryDocuments (ranked_env [Some 0.25, Some 0.5, Some 1.5])
        (ready_state [zenlise_document, hasinthaka_document, sentinel_document])
        ''zenlise'' 3 0.75 = Inr example_results"
    by code_simp
  have a: "num_zero (arith (ranked_env [Some 0.25, Some 0.5, Some 1.5])) = 0"
    "num_one (arith (ranked_env [Some 0.25, Some 0.5, Some 1.5])) = 1"
    by (simp_all add: ranked_env_def exact_arithmetic_def)
  have "\<forall>r\<in>set example_results. 0 \<le> score r \<and> score r \<le> 1 \<and> 0.75 \<le> score r"
    using queryDocuments_scores[OF m q t, THEN conjunct1] unfolding a .
  then have "list_all (\<lambda>r. 0 \<le> score r \<and> score r \<le> 1 \<and> 0.75 \<le> score r) example_results"
    by (simp only: list_all_iff)
  with m t q show ?thesis by blast
qed

section \<open>Archiving a session\<close>

lemma insert_bin_result:
  "insert_bin tbl rows = Inr tbl' \<Longrightarrow> tbl' = tbl @ rows"
proof (induction rows arbitrary: tbl)
  case Nil
  then show ?case by simp
next
  case (Cons row rows)
  from Cons.prems have "insert_bin (tbl @ [row]) rows = Inr tbl'"
    by (simp split: if_splits)
  from Cons.IH[OF this] show ?case by simp
qed

lemma insert_bin_fresh:
  "distinct (map msg_id rows) \<Longrightarrow> set (map msg_id rows) \<inter> set (map msg_id tbl) = {}
     \<Longrightarrow> insert_bin tbl rows = Inr (tbl @ rows)"
proof (induction rows arbitrary: tbl)
  case Nil
  then show ?case by simp
next
  case (Cons row rows)
  from Cons.prems have "msg_id row \<notin> set (map msg_id tbl)" by auto
  moreover from Cons.prems have "insert_bin (tbl @ [row]) rows = Inr ((tbl @ [row]) @ rows)"
    by (intro Cons.IH) auto
  ultimately show ?case by simp
qed

lemma getMessages_no_rows:
  "filter (\<lambda>row. session_id row = sessionId) (messages dbase) = []
     \<Longrightarrow> getMessages (Some dbase) sessionId limit = []"
  by (simp add: getMessages_def sql_limit_def)

text \<open>
  Claim C9. When \<open>archiveSession\<close> completes, listing the session's active messages
  returns the empty list, for every limit; the archive is the earlier archive followed by
  the session's messages, so each message the session had is there with its id, role,
  content and timestamp unchanged. Without a database the call completes and changes
  nothing.
\<close>

theorem archiveSession_moves:
  assumes "archiveSession d archivedAt sessionId = Inr d'"
  shows "getMessages d' sessionId limit = []
    \<and> (case d of
          None \<Rightarrow> d' = None
        | Some dbase \<Rightarrow>
            (\<exists>dbase'. d' = Some dbase'
               \<and> chat_bin dbase' = chat_bin dbase
                    @ map (to_bin archivedAt)
                        (filter (\<lambda>row. session_id row = sessionId) (messages dbase))
               \<and> (\<forall>row\<in>set (messages dbase). session_id row = sessionId \<longrightarrow>
                    (\<exists>b\<in>set (chat_bin dbase'). msg_id b = msg_id row \<and> role b = role row
                       \<and> content_of b = content_of row \<and> timestamp b = timestamp row))))"
proof (cases d)
  case None
  with assms show ?thesis by (simp add: archiveSession_def getMessages_def)
next
  case (Some dbase)
  let ?moved = "map (to_bin archivedAt) (filter (\<lambda>row. session_id row = sessionId) (messages dbase))"
  from assms Some obtain bin where bin: "insert_bin (chat_bin dbase) ?moved = Inr bin"
    and d': "d' = Some (dbase\<lparr>chat_bin := bin,
        messages := filter (\<lambda>row. session_id row \<noteq> sessionId) (messages dbase)\<rparr>)"
    by (auto simp: archiveSession_def split: sum.splits)
  from insert_bin_result[OF bin] have bin_eq: "bin = chat_bin dbase @ ?moved" .
  have empty: "getMessages d' sessionId limit = []"
    unfolding d' by (rule getMessages_no_rows) (simp add: filter_empty_conv)
  have kept: "\<exists>b\<in>set bin. msg_id b = msg_id row \<and> role b = role row
      \<and> content_of b = content_of row \<and> timestamp b = timestamp row"
    if "row \<in> set (messages dbase)" "session_id row = sessionId" for row
  proof -
    from that have "to_bin archivedAt row \<in> set bin" by (simp add: bin_eq)
    then show ?thesis by (rule bexI[rotated]) (simp add: to_bin_def)
  qed
  show ?thesis using Some empty kept bin_eq by (simp add: d')
qed

text \<open>The call does complete when no id of an active message is in the archive
  already.\<close>

lemma archiveSession_completes:
  assumes "distinct (map msg_id (messages dbase))"
    and "set (map msg_id (messages dbase)) \<inter> set (map msg_id (chat_bin dbase)) = {}"
  shows "\<exists>d'. archiveSession (Some dbase) archivedAt sessionId = Inr d'"
proof -
  let ?rows = "filter (\<lambda>row. session_id row = sessionId) (messages dbase)"
  have ids: "map msg_id (map (to_bin archivedAt) ?rows) = map msg_id ?rows"
    by (simp add: to_bin_def)
  from assms(1) have "distinct (map msg_id ?rows)" by (rule distinct_map_filter)
  moreover from assms(2) have "set (map msg_id ?rows) \<inter> set (map msg_id (chat_bin dbase)) = {}"
    by auto
  ultimately have "insert_bin (chat_bin dbase) (map (to_bin archivedAt) ?rows)
      = Inr (chat_bin dbase @ map (to_bin archivedAt) ?rows)"
    by (intro insert_bin_fresh) (simp_all only: ids)
  then show ?thesis by (simp add: archiveSession_def)
qed

theorem archiveSession_moves_witness:
  "map msg_id (getMessages (Some example_database) ''session-1'' 50) = [''msg_1'', ''msg_2'']
   \<and> (\<exists>d'. archiveSession (Some example_database) ''2026-01-02T08:00:00.000Z'' ''session-1''
               = Inr d'
          \<and> getMessages d' ''session-1'' 50 = [])"
proof -
  have before: "map msg_id (getMessages (Some example_database) ''session-1'' 50)
      = [''msg_1'', ''msg_2'']"
    by code_simp
  have "distinct (map msg_id (messages example_database))"
    and "set (map msg_id (messages example_database))
           \<inter> set (map msg_id (chat_bin example_database)) = {}"
    by (simp_all add: example_database_def)
  then obtain d' where d': "archiveSession (Some example_database)
      ''2026-01-02T08:00:00.000Z'' ''session-1'' = Inr d'"
    using archiveSession_completes by blast
  from archiveSession_moves[OF d', of 50] have "getMessages d' ''session-1'' 50 = []"
    by (rule conjunct1)
  with before d' show ?thesis by blast
qed

section \<open>The context budget\<close>

lemma candidatePart_nonempty: "candidatePart r \<noteq> []"
  by (simp add: candidatePart_def)

lemma join_snoc:
  "join sep (xs @ [x]) = (if xs = [] then x else join sep xs @ sep @ x)"
  by (induction sep xs rule: join.induct) auto

lemma join_empty_iff:
  "xs \<noteq> [] \<Longrightarrow> hd xs \<noteq> [] \<Longrightarrow> join sep xs \<noteq> []"
  by (induction sep xs rule: join.induct) auto

text \<open>What the loop has done when it is left: it has taken the first \<open>k\<close> results, each
  of which kept the joined blocks within the budget, and result \<open>k\<close>, if there is one,
  would have exceeded it.\<close>

lemma assemble_loop_prefix:
  "assemble_loop results maxLen parts srcs = (parts', srcs') \<Longrightarrow>
   \<exists>k\<le>length results.
      parts' = parts @ map candidatePart (take k results)
      \<and> map src_id srcs' = map src_id srcs @ map sr_id (take k results)
      \<and> map similarity srcs' = map similarity srcs @ map score (take k results)
      \<and> (\<forall>j<k. int (length (join separator (parts @ map candidatePart (take (Suc j) results))))
              \<le> maxLen)
      \<and> (k < length results \<longrightarrow>
            int (length (join separator (parts @ map candidatePart (take (Suc k) results))))
              > maxLen)"
proof (induction results arbitrary: parts srcs)
  case Nil
  then show ?case by simp
next
  case (Cons r results)
  show ?case
  proof (cases "int (length (join separator (parts @ [candidatePart r]))) > maxLen")
    case True
    with Cons.prems have "parts' = parts" "srcs' = srcs" by simp_all
    with True show ?thesis by (intro exI[of _ 0]) simp
  next
    case False
    with Cons.prems have "assemble_loop results maxLen (parts @ [candidatePart r])
        (srcs @ [\<lparr>src_id = sr_id r, src_title = title_or_untitled (title (metadata r)),
                   similarity = score r\<rparr>]) = (parts', srcs')"
      by simp
    from Cons.IH[OF this] obtain k where k: "k \<le> length results"
      "parts' = (parts @ [candidatePart r]) @ map candidatePart (take k results)"
      "map src_id srcs' = map src_id (srcs @ [\<lparr>src_id = sr_id r,
          src_title = title_or_untitled (title (metadata r)), similarity = score r\<rparr>])
          @ map sr_id (take k results)"
      "map similarity srcs' = map similarity (srcs @ [\<lparr>src_id = sr_id r,
          src_title = title_or_untitled (title (metadata r)), similarity = score r\<rparr>])
          @ map score (take k results)"
      "\<forall>j<k. int (length (join separator
          ((parts @ [candidatePart r]) @ map candidatePart (take (Suc j) results)))) \<le> maxLen"
      "k < length results \<longrightarrow> int (length (join separator
          ((parts @ [candidatePart r]) @ map candidatePart (take (Suc k) results)))) > maxLen"
      by blast
    have within: "int (length (join separator
        (parts @ map candidatePart (take (Suc j) (r # results))))) \<le> maxLen" if "j < Suc k" for j
    proof (cases j)
      case 0
      with False show ?thesis by simp
    next
      case (Suc j')
      with that k(5) show ?thesis by simp
    qed
    show ?thesis
      using k within by (intro exI[of _ "Suc k"]) simp
  qed
qed

text \<open>
  Claim C5. For every list of results and every budget, the context is the join of the
  blocks of the first \<open>k\<close> results, for the \<open>k\<close> at which the loop stops: each of the first
  \<open>k\<close> blocks kept the joined string within the budget, and block \<open>k\<close>, if there is one,
  would have exceeded it; the sources are those of the same \<open>k\<close> results. For a budget
  that is not negative the context is no longer than the budget, and the context is empty
  exactly when there is no result or the first block alone exceeds the budget.
\<close>

theorem assemble_context_budget:
  "\<exists>k\<le>length results.
      fst (assemble_context results maxLen) = join separator (map candidatePart (take k results))
      \<and> map src_id (snd (assemble_context results maxLen)) = map sr_id (take k results)
      \<and> (\<forall>j<k. int (length (join separator (map candidatePart (take (Suc j) results)))) \<le> maxLen)
      \<and> (k < length results \<longrightarrow>
            int (length (join separator (map candidatePart (take (Suc k) results)))) > maxLen)
      \<and> (0 \<le> maxLen \<longrightarrow> int (length (fst (assemble_context results maxLen))) \<le> maxLen)
      \<and> (fst (assemble_context results maxLen) = [] \<longleftrightarrow>
            results = [] \<or> int (length (candidatePart (hd results))) > maxLen)"
proof -
  obtain parts srcs where loop: "assemble_loop results maxLen [] [] = (parts, srcs)"
    by (cases "assemble_loop results maxLen [] []")
  from assemble_loop_prefix[OF loop] obtain k where k: "k \<le> length results"
    "parts = map candidatePart (take k results)"
    "map src_id srcs = map sr_id (take k results)"
    "\<forall>j<k. int (length (join separator (map candidatePart (take (Suc j) results)))) \<le> maxLen"
    "k < length results \<longrightarrow>
       int (length (join separator (map candidatePart (take (Suc k) results)))) > maxLen"
    by auto
  have ctx: "fst (assemble_context results maxLen) = join separator parts"
    and src: "snd (assemble_context results maxLen) = srcs"
    using loop k(1,2,3) by (cases results; simp add: assemble_context_def)+
  have len: "int (length (join separator parts)) \<le> maxLen" if "0 \<le> maxLen"
  proof (cases k)
    case 0
    with k(2) that show ?thesis by simp
  next
    case (Suc k')
    with k(4) have "int (length (join separator (map candidatePart (take (Suc k') results)))) \<le> maxLen"
      by simp
    with Suc k(2) show ?thesis by simp
  qed
  have empty: "join separator parts = [] \<longleftrightarrow> k = 0 \<or> results = []"
  proof (cases "k = 0 \<or> results = []")
    case True
    with k(2) show ?thesis by auto
  next
    case False
    then obtain r rest k' where "results = r # rest" "k = Suc k'"
      by (cases results; cases k) auto
    with k(2) have "parts \<noteq> []" "hd parts \<noteq> []" by (simp_all add: candidatePart_nonempty)
    from join_empty_iff[OF this] False show ?thesis by simp
  qed
  have first: "k = 0 \<or> results = [] \<longleftrightarrow>
      results = [] \<or> int (length (candidatePart (hd results))) > maxLen"
  proof (cases results)
    case Nil
    then show ?thesis by simp
  next
    case (Cons r rest)
    show ?thesis
    proof (cases k)
      case 0
      with k(5) Cons show ?thesis by simp
    next
      case (Suc k')
      with k(4) have "int (length (join separator (map candidatePart (take (Suc 0) results)))) \<le> maxLen"
        by blast
      with Cons Suc show ?thesis by simp
    qed
  qed
  show ?thesis
    using k len empty first by (intro exI[of _ k]) (simp add: ctx src)
qed

theorem assemble_context_budget_witness:
  "fst (assemble_context example_results 40) = ''[Zenlise]\<newline>Zenlise is a tool.''
   \<and> int (length (fst (assemble_context example_results 40))) \<le> 40
   \<and> fst (assemble_context example_results 40) \<noteq> []"
proof -
  have c: "fst (assemble_context example_results 40) = ''[Zenlise]\<newline>Zenlise is a tool.''"
    by code_simp
  have ne: "example_results \<noteq> []" by (simp add: example_results_def)
  have first: "\<not> int (length (candidatePart (hd example_results))) > 40" by code_simp
  from assemble_context_budget[of example_results 40] c ne first show ?thesis by auto
qed

section \<open>Properties of the think-tag parser\<close>

lemma indexOf_NoneD:
  assumes "indexOf s sub from = None" and "from \<le> j" and "j \<le> length s"
  shows "\<not> occurs_at s sub j"
  using assms unfolding indexOf_def find_None_iff by (auto simp del: upt_Suc)

lemma indexOf_first:
  assumes "occurs_at s sub k" and "from \<le> k" and "k \<le> length s"
    and "\<And>j. from \<le> j \<Longrightarrow> j < k \<Longrightarrow> \<not> occurs_at s sub j"
  shows "indexOf s sub from = Some k"
proof (cases "indexOf s sub from")
  case None
  with assms(1-3) show ?thesis using indexOf_NoneD by blast
next
  case (Some k')
  note d = indexOf_SomeD[OF Some]
  have "\<not> k' < k" using assms(4) d(1,3) by blast
  moreover have "\<not> k < k'" using d(4) assms(1,2) by blast
  ultimately show ?thesis using Some by simp
qed

lemma indexOf_NoneI:
  assumes "\<And>j. from \<le> j \<Longrightarrow> j \<le> length s \<Longrightarrow> \<not> occurs_at s sub j"
  shows "indexOf s sub from = None"
proof (cases "indexOf s sub from")
  case None then show ?thesis .
next
  case (Some k)
  from indexOf_SomeD(1-3)[OF Some] assms show ?thesis by blast
qed

lemma includes_str_iff: "includes_str s sub \<longleftrightarrow> (\<exists>k\<le>length s. occurs_at s sub k)"
proof
  assume "includes_str s sub"
  then obtain k where "indexOf s sub 0 = Some k" by (auto simp: includes_str_def)
  from indexOf_SomeD(2,3)[OF this] show "\<exists>k\<le>length s. occurs_at s sub k" by blast
next
  assume "\<exists>k\<le>length s. occurs_at s sub k"
  then obtain k where "k \<le> length s" "occurs_at s sub k" by blast
  then have "indexOf s sub 0 \<noteq> None" using indexOf_NoneD[of s sub 0 k] by auto
  then show "includes_str s sub" by (simp add: includes_str_def)
qed

lemma occurs_at_shift: "occurs_at (pre @ s) sub (length pre + k) = occurs_at s sub k"
  by (simp add: occurs_at_def)

lemma occurs_at_here: "occurs_at (sub @ rest) sub 0"
  by (simp add: occurs_at_def)

lemma occurs_at_length:
  assumes "occurs_at s sub k" and "sub \<noteq> []"
  shows "k + length sub \<le> length s"
proof -
  from assms(1) have "length (take (length sub) (drop k s)) = length sub"
    by (simp only: occurs_at_def)
  then have "length sub \<le> length s - k" by simp
  moreover from assms(2) have "0 < length sub" by simp
  ultimately show ?thesis by arith
qed

text \<open>A marker whose first character does not come back later in it cannot straddle
  the end of a text that does not contain it.\<close>

lemma no_early_occurrence:
  assumes first: "hd sub \<notin> set (tl sub)" and ne: "sub \<noteq> []"
    and no: "\<not> includes_str t sub" and k: "k < length t"
  shows "\<not> occurs_at (t @ sub @ rest) sub k"
proof
  assume occ: "occurs_at (t @ sub @ rest) sub k"
  show False
  proof (cases "k + length sub \<le> length t")
    case True
    then have "take (length sub) (drop k (t @ sub @ rest)) = take (length sub) (drop k t)"
      by simp
    with occ have "occurs_at t sub k" by (simp add: occurs_at_def)
    with k no show False by (auto simp: includes_str_iff)
  next
    case False
    define d where "d = length t - k"
    from False k have d: "0 < d" "d < length sub" "k + d = length t" by (auto simp: d_def)
    from occ have "sub ! d = take (length sub) (drop k (t @ sub @ rest)) ! d"
      by (simp add: occurs_at_def)
    also have "\<dots> = drop k (t @ sub @ rest) ! d"
      using d(2) by (rule nth_take)
    also have "\<dots> = (t @ sub @ rest) ! (k + d)"
      using d(3) by (intro nth_drop) simp
    also have "\<dots> = hd sub"
      using d ne by (simp add: nth_append hd_conv_nth)
    finally have "sub ! d = hd sub" .
    moreover from d ne have "sub ! d \<in> set (tl sub)"
      by (cases sub) (auto simp: nth_Cons split: nat.splits)
    ultimately show False using first by simp
  qed
qed

lemma first_occurrence:
  assumes "hd sub \<notin> set (tl sub)" and "sub \<noteq> []" and "\<not> includes_str t sub"
  shows "indexOf (pre @ t @ sub @ rest) sub (length pre) = Some (length pre + length t)"
proof (rule indexOf_first)
  show "occurs_at (pre @ t @ sub @ rest) sub (length pre + length t)"
    using occurs_at_shift[of "pre @ t" "sub @ rest" sub 0] by (simp add: occurs_at_here)
  show "length pre \<le> length pre + length t" by simp
  show "length pre + length t \<le> length (pre @ t @ sub @ rest)" by simp
  fix j assume j: "length pre \<le> j" "j < length pre + length t"
  then obtain k where k: "j = length pre + k" "k < length t"
    by (metis le_Suc_ex nat_add_left_cancel_less)
  with no_early_occurrence[OF assms, of k rest] show "\<not> occurs_at (pre @ t @ sub @ rest) sub j"
    by (simp add: occurs_at_shift)
qed

lemma open_first: "hd THINK_OPEN \<notin> set (tl THINK_OPEN)" "THINK_OPEN \<noteq> []"
  by (simp_all add: THINK_OPEN_def)

lemma close_first: "hd THINK_CLOSE \<notin> set (tl THINK_CLOSE)" "THINK_CLOSE \<noteq> []"
  by (simp_all add: THINK_CLOSE_def)

lemma includes_str_occurs: "occurs_at s sub k \<Longrightarrow> k \<le> length s \<Longrightarrow> includes_str s sub"
  by (auto simp: includes_str_iff)

lemma occurs_at_beyond: "occurs_at s sub k \<Longrightarrow> sub \<noteq> [] \<Longrightarrow> k \<le> length s"
  using occurs_at_length[of s sub k] by simp

text \<open>The four ways through one round of the loop.\<close>

lemma parse_loop_closed:
  "i < length raw \<Longrightarrow> slice raw i (i + length THINK_OPEN) = THINK_OPEN \<Longrightarrow>
   indexOf raw THINK_CLOSE (i + length THINK_OPEN) = Some closeIdx \<Longrightarrow>
   parse_loop raw i resp parts cur
     = parse_loop raw (closeIdx + length THINK_CLOSE) resp
         (parts @ [cur @ slice raw (i + length THINK_OPEN) closeIdx]) []"
  by (subst parse_loop.simps) simp

lemma parse_loop_open:
  "i < length raw \<Longrightarrow> slice raw i (i + length THINK_OPEN) = THINK_OPEN \<Longrightarrow>
   indexOf raw THINK_CLOSE (i + length THINK_OPEN) = None \<Longrightarrow>
   parse_loop raw i resp parts cur = (resp, parts, drop (i + length THINK_OPEN) raw)"
  by (subst parse_loop.simps) simp

lemma parse_loop_text:
  "i < length raw \<Longrightarrow> slice raw i (i + length THINK_OPEN) \<noteq> THINK_OPEN \<Longrightarrow>
   indexOf raw THINK_OPEN i = Some nextOpen \<Longrightarrow>
   parse_loop raw i resp parts cur
     = parse_loop raw nextOpen (resp @ slice raw i nextOpen) parts cur"
  by (subst parse_loop.simps) simp

lemma parse_loop_rest:
  "i < length raw \<Longrightarrow> slice raw i (i + length THINK_OPEN) \<noteq> THINK_OPEN \<Longrightarrow>
   indexOf raw THINK_OPEN i = None \<Longrightarrow>
   parse_loop raw i resp parts cur = (resp @ drop i raw, parts, cur)"
  by (subst parse_loop.simps) simp

lemma parse_loop_end:
  "\<not> i < length raw \<Longrightarrow> parse_loop raw i resp parts cur = (resp, parts, cur)"
  by (subst parse_loop.simps) simp

text \<open>At an open marker whose block is closed.\<close>

lemma parse_loop_block:
  assumes "\<not> includes_str t THINK_CLOSE"
  shows "parse_loop (pre @ THINK_OPEN @ t @ THINK_CLOSE @ rest) (length pre) resp parts cur
     = parse_loop (pre @ THINK_OPEN @ t @ THINK_CLOSE @ rest)
         (length (pre @ THINK_OPEN @ t @ THINK_CLOSE)) resp (parts @ [cur @ t]) []"
proof -
  let ?raw = "pre @ THINK_OPEN @ t @ THINK_CLOSE @ rest"
  have lt: "length pre < length ?raw" by (simp add: THINK_OPEN_def)
  have at_open: "slice ?raw (length pre) (length pre + length THINK_OPEN) = THINK_OPEN"
    by (simp add: slice_def)
  have "indexOf ((pre @ THINK_OPEN) @ t @ THINK_CLOSE @ rest) THINK_CLOSE (length (pre @ THINK_OPEN))
      = Some (length (pre @ THINK_OPEN) + length t)"
    using close_first assms by (rule first_occurrence)
  then have ix: "indexOf ?raw THINK_CLOSE (length pre + length THINK_OPEN)
      = Some (length pre + length THINK_OPEN + length t)"
    by simp
  have sl: "slice ?raw (length pre + length THINK_OPEN) (length pre + length THINK_OPEN + length t) = t"
    by (simp add: slice_def)
  show ?thesis
    using parse_loop_closed[OF lt at_open ix, of resp parts cur] by (simp add: slice_def add.assoc)
qed

text \<open>In visible text before an open marker.\<close>

lemma parse_loop_visible:
  assumes "\<not> includes_str v THINK_OPEN"
  shows "parse_loop (pre @ v @ THINK_OPEN @ rest) (length pre) resp parts cur
     = parse_loop (pre @ v @ THINK_OPEN @ rest) (length (pre @ v)) (resp @ v) parts cur"
proof (cases "v = []")
  case True
  then show ?thesis by simp
next
  case False
  let ?raw = "pre @ v @ THINK_OPEN @ rest"
  have lt: "length pre < length ?raw" using False by simp
  have ix: "indexOf ?raw THINK_OPEN (length pre) = Some (length pre + length v)"
    using open_first assms by (rule first_occurrence)
  from indexOf_SomeD(4)[OF ix, of "length pre"] False
  have "\<not> occurs_at ?raw THINK_OPEN (length pre)" by simp
  then have not_open: "slice ?raw (length pre) (length pre + length THINK_OPEN) \<noteq> THINK_OPEN"
    by (simp add: slice_def occurs_at_def)
  have sl: "slice ?raw (length pre) (length pre + length v) = v"
    by (simp add: slice_def)
  show ?thesis
    using parse_loop_text[OF lt not_open ix, of resp parts cur] by (simp add: slice_def)
qed

text \<open>In a visible tail.\<close>

lemma parse_loop_tail:
  assumes "\<not> includes_str tail THINK_OPEN"
  shows "parse_loop (pre @ tail) (length pre) resp parts cur = (resp @ tail, parts, cur)"
proof (cases "tail = []")
  case True
  then show ?thesis by (simp add: parse_loop_end)
next
  case False
  have no: "\<not> occurs_at (pre @ tail) THINK_OPEN j" if "length pre \<le> j" for j
  proof
    assume occ: "occurs_at (pre @ tail) THINK_OPEN j"
    from that obtain k where k: "j = length pre + k" by (metis le_Suc_ex)
    with occ have o: "occurs_at tail THINK_OPEN k" by (simp add: occurs_at_shift)
    then have "k \<le> length tail" using occurs_at_beyond open_first(2) by blast
    with o assms show False using includes_str_occurs by blast
  qed
  have lt: "length pre < length (pre @ tail)" using False by simp
  have not_open: "slice (pre @ tail) (length pre) (length pre + length THINK_OPEN) \<noteq> THINK_OPEN"
    using no[of "length pre"] by (simp add: slice_def occurs_at_def)
  have ix: "indexOf (pre @ tail) THINK_OPEN (length pre) = None"
    by (rule indexOf_NoneI) (use no in blast)
  show ?thesis
    using parse_loop_rest[OF lt not_open ix, of resp parts cur] by simp
qed

text \<open>At an open marker that is never closed.\<close>

lemma parse_loop_unterminated:
  assumes "\<not> includes_str part THINK_CLOSE"
  shows "parse_loop (pre @ THINK_OPEN @ part) (length pre) resp parts cur = (resp, parts, part)"
proof -
  let ?raw = "pre @ THINK_OPEN @ part"
  have lt: "length pre < length ?raw" by (simp add: THINK_OPEN_def)
  have at_open: "slice ?raw (length pre) (length pre + length THINK_OPEN) = THINK_OPEN"
    by (simp add: slice_def)
  have no: "\<not> occurs_at ?raw THINK_CLOSE j" if "length pre + length THINK_OPEN \<le> j" for j
  proof
    assume occ: "occurs_at ?raw THINK_CLOSE j"
    from that obtain k where k: "j = length (pre @ THINK_OPEN) + k"
      by (metis le_Suc_ex length_append)
    with occ have o: "occurs_at part THINK_CLOSE k"
      using occurs_at_shift[of "pre @ THINK_OPEN" part THINK_CLOSE k] by simp
    then have "k \<le> length part" using occurs_at_beyond close_first(2) by blast
    with o assms show False using includes_str_occurs by blast
  qed
  have ix: "indexOf ?raw THINK_CLOSE (length pre + length THINK_OPEN) = None"
    by (rule indexOf_NoneI) (use no in blast)
  have dr: "drop (length pre + length THINK_OPEN) ?raw = part" by simp
  show ?thesis
    using parse_loop_open[OF lt at_open ix, of resp parts cur] by (simp only: dr)
qed

lemma closed_blocks_Cons:
  "closed_blocks ((v, t) # segs) = v @ THINK_OPEN @ t @ THINK_CLOSE @ closed_blocks segs"
  by (simp add: closed_blocks_def)

lemma closed_blocks_Nil: "closed_blocks [] = []"
  by (simp add: closed_blocks_def)

text \<open>The loop walks through the closed blocks: after them it stands at the tail, with
  the visible parts appended to the response and one reasoning segment per block.\<close>

lemma parse_loop_blocks:
  assumes "balanced_segments segs"
  shows "parse_loop (pre @ closed_blocks segs @ tail) (length pre) resp parts []
     = parse_loop (pre @ closed_blocks segs @ tail) (length (pre @ closed_blocks segs))
         (resp @ concat (map fst segs)) (parts @ map snd segs) []"
  using assms
proof (induction segs arbitrary: pre resp parts)
  case Nil
  then show ?case by (simp add: closed_blocks_Nil)
next
  case (Cons seg segs)
  obtain v t where seg: "seg = (v, t)" by (cases seg)
  from Cons.prems seg have v: "\<not> includes_str v THINK_OPEN" and t: "\<not> includes_str t THINK_CLOSE"
    and rest: "balanced_segments segs"
    by (simp_all add: balanced_segments_def)
  let ?raw = "pre @ v @ THINK_OPEN @ t @ THINK_CLOSE @ closed_blocks segs @ tail"
  have "parse_loop ?raw (length pre) resp parts []
      = parse_loop ?raw (length (pre @ v)) (resp @ v) parts []"
    using v by (rule parse_loop_visible)
  also have "\<dots> = parse_loop ?raw (length ((pre @ v) @ THINK_OPEN @ t @ THINK_CLOSE))
      (resp @ v) (parts @ [[] @ t]) []"
    using parse_loop_block[OF t, of "pre @ v" "closed_blocks segs @ tail" "resp @ v" parts "[]"]
    by simp
  also have "\<dots> = parse_loop ?raw
      (length ((pre @ v @ THINK_OPEN @ t @ THINK_CLOSE) @ closed_blocks segs))
      ((resp @ v) @ concat (map fst segs)) ((parts @ [t]) @ map snd segs) []"
    using Cons.IH[OF rest, of "pre @ v @ THINK_OPEN @ t @ THINK_CLOSE" "resp @ v" "parts @ [t]"]
    by simp
  finally show ?case by (simp add: seg closed_blocks_Cons)
qed

lemma parse_loop_balanced:
  assumes "balanced_segments segs" and "\<not> includes_str tail THINK_OPEN"
  shows "parse_loop (closed_blocks segs @ tail) 0 [] [] []
     = (concat (map fst segs) @ tail, map snd segs, [])"
  using parse_loop_blocks[OF assms(1), of "[]" tail "[]" "[]"]
    parse_loop_tail[OF assms(2), of "closed_blocks segs" "concat (map fst segs)" "map snd segs" "[]"]
  by simp

lemma parse_loop_partial:
  assumes "balanced_segments segs" and "\<not> includes_str v THINK_OPEN"
    and "\<not> includes_str part THINK_CLOSE"
  shows "parse_loop (closed_blocks segs @ v @ THINK_OPEN @ part) 0 [] [] []
     = (concat (map fst segs) @ v, map snd segs, part)"
proof -
  let ?raw = "closed_blocks segs @ v @ THINK_OPEN @ part"
  have "parse_loop ?raw 0 [] [] []
      = parse_loop ?raw (length (closed_blocks segs)) (concat (map fst segs)) (map snd segs) []"
    using parse_loop_blocks[OF assms(1), of "[]" "v @ THINK_OPEN @ part" "[]" "[]"] by simp
  also have "\<dots> = parse_loop ?raw (length (closed_blocks segs @ v))
      (concat (map fst segs) @ v) (map snd segs) []"
    using assms(2) by (rule parse_loop_visible)
  also have "\<dots> = (concat (map fst segs) @ v, map snd segs, part)"
    using parse_loop_unterminated[OF assms(3), of "closed_blocks segs @ v"] by simp
  finally show ?thesis .
qed

lemma lastIndexOf_SomeD:
  assumes "lastIndexOf s sub = Some k"
  shows "k \<le> length s" and "occurs_at s sub k"
    and "\<And>j. k < j \<Longrightarrow> j \<le> length s \<Longrightarrow> \<not> occurs_at s sub j"
proof -
  let ?L = "[0..<Suc (length s)]"
  have nth: "rev ?L ! i = length s - i" if "i < Suc (length s)" for i
  proof -
    from that have "rev ?L ! i = ?L ! (length ?L - Suc i)" by (simp only: rev_nth length_upt diff_zero)
    also have "\<dots> = ?L ! (length s - i)" by simp
    also have "\<dots> = 0 + (length s - i)" by (rule nth_upt) simp
    finally show ?thesis by simp
  qed
  from assms obtain i where i: "i < Suc (length s)"
    and P: "occurs_at s sub (rev ?L ! i)" and k: "k = rev ?L ! i"
    and last: "\<forall>j<i. \<not> occurs_at s sub (rev ?L ! j)"
    unfolding lastIndexOf_def find_Some_iff length_rev length_upt by auto
  from k nth[OF i] have k': "k = length s - i" by simp
  show "k \<le> length s" using k' by simp
  show "occurs_at s sub k" using P k by simp
  show "\<not> occurs_at s sub j" if "k < j" "j \<le> length s" for j
  proof -
    from that k' i have d: "length s - j < i" "length s - j < Suc (length s)" by arith+
    from nth[OF d(2)] that have "rev ?L ! (length s - j) = j" by simp
    with last d(1) show ?thesis by metis
  qed
qed

lemma lastIndexOf_occurs:
  assumes "occurs_at s sub j" and "j \<le> length s"
  shows "\<exists>k\<ge>j. lastIndexOf s sub = Some k"
proof (cases "lastIndexOf s sub")
  case None
  then have "\<not> occurs_at s sub j"
    using assms(2) unfolding lastIndexOf_def find_None_iff by (auto simp del: upt_Suc)
  with assms(1) show ?thesis by simp
next
  case (Some k)
  from lastIndexOf_SomeD(3)[OF Some, of j] assms have "\<not> k < j" by blast
  with Some show ?thesis by auto
qed

lemma close_not_in_open:
  assumes "j < length THINK_OPEN"
  shows "\<not> occurs_at (THINK_OPEN @ part) THINK_CLOSE j"
proof -
  from assms have "j = 0 \<or> j = 1 \<or> j = 2 \<or> j = 3 \<or> j = 4 \<or> j = 5 \<or> j = 6"
    by (simp add: THINK_OPEN_def) arith
  then show ?thesis
    by (elim disjE) (simp_all add: occurs_at_def THINK_OPEN_def THINK_CLOSE_def)
qed

text \<open>After an open marker that no close marker follows, the last open marker stands
  behind every close marker.\<close>

lemma inside_unterminated:
  assumes "\<not> includes_str part THINK_CLOSE"
  shows "isInsideThink (parseThinkContent (pre @ THINK_OPEN @ part))"
proof -
  let ?raw = "pre @ THINK_OPEN @ part"
  have "occurs_at ?raw THINK_OPEN (length pre)"
    using occurs_at_shift[of pre "THINK_OPEN @ part" THINK_OPEN 0] by (simp add: occurs_at_here)
  then obtain lo where lo: "lastIndexOf ?raw THINK_OPEN = Some lo" "length pre \<le> lo"
    using lastIndexOf_occurs[of ?raw THINK_OPEN "length pre"] by auto
  have no_close: "\<not> occurs_at ?raw THINK_CLOSE j" if "length pre \<le> j" for j
  proof
    assume occ: "occurs_at ?raw THINK_CLOSE j"
    from that obtain d where d: "j = length pre + d" by (metis le_Suc_ex)
    with occ have o: "occurs_at (THINK_OPEN @ part) THINK_CLOSE d" by (simp add: occurs_at_shift)
    show False
    proof (cases "d < length THINK_OPEN")
      case True
      with o close_not_in_open show False by blast
    next
      case False
      then obtain e where e: "d = length THINK_OPEN + e" by (metis le_Suc_ex not_less)
      with o have o': "occurs_at part THINK_CLOSE e" by (simp add: occurs_at_shift)
      then have "e \<le> length part" using occurs_at_beyond close_first(2) by blast
      with o' assms show False using includes_str_occurs by blast
    qed
  qed
  have "case lastIndexOf ?raw THINK_CLOSE of None \<Rightarrow> True | Some lc \<Rightarrow> lc < lo"
  proof (cases "lastIndexOf ?raw THINK_CLOSE")
    case None
    then show ?thesis by simp
  next
    case (Some lc)
    from lastIndexOf_SomeD(2)[OF Some] no_close[of lc] have "lc < length pre" by (cases "lc < length pre") auto
    with lo(2) Some show ?thesis by simp
  qed
  then show ?thesis
    by (simp add: parseThinkContent_def lo(1) split: prod.splits option.splits)
qed

lemma occurs_at_prefix:
  "j + length sub \<le> length a \<Longrightarrow> occurs_at (a @ b) sub j = occurs_at a sub j"
  by (simp add: occurs_at_def)

lemma occurs_at_split:
  assumes "occurs_at s sub k"
  obtains r where "s = take k s @ sub @ r"
proof -
  have "take k s @ drop k s = s" by (rule append_take_drop_id)
  moreover have "take (length sub) (drop k s) @ drop (length sub) (drop k s) = drop k s"
    by (rule append_take_drop_id)
  moreover have "take (length sub) (drop k s) = sub" using assms by (simp only: occurs_at_def)
  ultimately have "s = take k s @ sub @ drop (length sub) (drop k s)" by metis
  then show ?thesis by (rule that)
qed

text \<open>A text that contains a marker splits at the marker's first occurrence.\<close>

lemma first_split:
  assumes "indexOf s sub 0 = Some k" and "sub \<noteq> []"
  shows "\<not> includes_str (take k s) sub"
proof
  assume "includes_str (take k s) sub"
  then obtain j where j: "j \<le> length (take k s)" "occurs_at (take k s) sub j"
    by (auto simp: includes_str_iff)
  from occurs_at_length[OF j(2) assms(2)] have le: "j + length sub \<le> length (take k s)" .
  have "occurs_at (take k s @ drop k s) sub j = occurs_at (take k s) sub j"
    using le by (rule occurs_at_prefix)
  with j(2) have "occurs_at s sub j" by simp
  moreover from le assms(2) have "j < k" by (cases sub) auto
  ultimately show False using indexOf_SomeD(4)[OF assms(1), of j] by simp
qed

lemma open_not_in_open:
  assumes "0 < j" and "j < length THINK_OPEN"
  shows "\<not> occurs_at (THINK_OPEN @ rest) THINK_OPEN j"
proof -
  from assms have "j = 1 \<or> j = 2 \<or> j = 3 \<or> j = 4 \<or> j = 5 \<or> j = 6"
    by (simp add: THINK_OPEN_def) arith
  then show ?thesis
    by (elim disjE) (simp_all add: occurs_at_def THINK_OPEN_def)
qed

text \<open>A marker cannot straddle the start of a text whose first character does not come
  back later in the marker.\<close>

lemma no_straddle:
  assumes first: "hd m \<notin> set (tl sub)" and ne: "m \<noteq> []"
    and occ: "occurs_at (t @ m @ rest) sub k" and k: "k < length t"
  shows "k + length sub \<le> length t"
proof (rule ccontr)
  assume "\<not> k + length sub \<le> length t"
  define d where "d = length t - k"
  from \<open>\<not> k + length sub \<le> length t\<close> k have d: "0 < d" "d < length sub" "k + d = length t"
    by (auto simp: d_def)
  from occ have "sub ! d = take (length sub) (drop k (t @ m @ rest)) ! d"
    by (simp add: occurs_at_def)
  also have "\<dots> = drop k (t @ m @ rest) ! d"
    using d(2) by (rule nth_take)
  also have "\<dots> = (t @ m @ rest) ! (k + d)"
    using d(3) by (intro nth_drop) simp
  also have "\<dots> = hd m"
    using d ne by (simp add: nth_append hd_conv_nth)
  finally have "sub ! d = hd m" .
  moreover from d have "sub ! d \<in> set (tl sub)"
    by (cases sub) (auto simp: nth_Cons split: nat.splits)
  ultimately show False using first by simp
qed

lemma no_close_after_open:
  assumes "\<not> includes_str rest THINK_CLOSE"
  shows "\<not> occurs_at (THINK_OPEN @ rest) THINK_CLOSE d"
proof
  assume o: "occurs_at (THINK_OPEN @ rest) THINK_CLOSE d"
  show False
  proof (cases "d < length THINK_OPEN")
    case True
    with o close_not_in_open show False by blast
  next
    case False
    then obtain e where e: "d = length THINK_OPEN + e" by (metis le_Suc_ex not_less)
    with o have o': "occurs_at rest THINK_CLOSE e" by (simp add: occurs_at_shift)
    then have "e \<le> length rest" using occurs_at_beyond close_first(2) by blast
    with o' assms show False using includes_str_occurs by blast
  qed
qed

lemma open_starts_close_tail: "hd THINK_OPEN \<notin> set (tl THINK_CLOSE)"
  by (simp add: THINK_OPEN_def THINK_CLOSE_def)

text \<open>Every buffer in which an open marker is followed by no close marker is a
  sequence of closed blocks, visible text, an open marker and a rest without close
  marker.\<close>

lemma unterminated_form:
  assumes "\<not> includes_str rest THINK_CLOSE"
  shows "\<exists>segs v part. balanced_segments segs \<and> \<not> includes_str v THINK_OPEN
           \<and> \<not> includes_str part THINK_CLOSE
           \<and> pre @ THINK_OPEN @ rest = closed_blocks segs @ v @ THINK_OPEN @ part"
proof (induction "length pre" arbitrary: pre rule: less_induct)
  case less
  let ?raw = "pre @ THINK_OPEN @ rest"
  have here: "occurs_at ?raw THINK_OPEN (length pre)"
    using occurs_at_shift[of pre "THINK_OPEN @ rest" THINK_OPEN 0] by (simp add: occurs_at_here)
  then have "indexOf ?raw THINK_OPEN 0 \<noteq> None"
    using indexOf_NoneD[of ?raw THINK_OPEN 0 "length pre"] by auto
  then obtain k where k: "indexOf ?raw THINK_OPEN 0 = Some k" by auto
  note kd = indexOf_SomeD[OF k]
  have k_le: "k \<le> length pre" using kd(4)[of "length pre"] here by (cases "k \<le> length pre") auto
  define v where "v = take k pre"
  have v_raw: "v = take k ?raw" using k_le by (simp add: v_def)
  have v_no: "\<not> includes_str v THINK_OPEN"
    unfolding v_raw using k open_first(2) by (rule first_split)
  show ?case
  proof (cases "k = length pre")
    case True
    then have "?raw = closed_blocks [] @ v @ THINK_OPEN @ rest"
      by (simp add: v_def closed_blocks_Nil)
    moreover have "balanced_segments []" by (simp add: balanced_segments_def)
    ultimately show ?thesis using v_no assms by blast
  next
    case False
    with k_le have k_lt: "k < length pre" by simp
    text \<open>The first open marker lies wholly inside \<open>pre\<close>.\<close>
    have k7: "k + length THINK_OPEN \<le> length pre"
    proof (rule ccontr)
      assume "\<not> k + length THINK_OPEN \<le> length pre"
      with k_lt obtain j where j: "length pre = k + j" "0 < j" "j < length THINK_OPEN"
        by (metis add_diff_inverse_nat less_imp_add_positive nat_add_left_cancel_less not_le
            not_less_iff_gr_or_eq)
      from occurs_at_split[OF kd(3)] obtain r0 where raw: "?raw = v @ THINK_OPEN @ r0"
        unfolding v_raw by blast
      have lv: "length v = k" using k_le by (simp add: v_def)
      from here have "occurs_at (v @ THINK_OPEN @ r0) THINK_OPEN (k + j)"
        by (simp only: raw j(1))
      then have "occurs_at (v @ THINK_OPEN @ r0) THINK_OPEN (length v + j)"
        by (simp only: lv)
      then have "occurs_at (THINK_OPEN @ r0) THINK_OPEN j"
        by (simp only: occurs_at_shift)
      with open_not_in_open[OF j(2,3)] show False by blast
    qed
    define p1 where "p1 = drop (k + length THINK_OPEN) pre"
    have pre_eq: "pre = v @ THINK_OPEN @ p1"
    proof -
      have "occurs_at pre THINK_OPEN k"
        using kd(3) occurs_at_prefix[OF k7, of "THINK_OPEN @ rest"] by simp
      then have "take (length THINK_OPEN) (drop k pre) = THINK_OPEN" by (simp only: occurs_at_def)
      moreover have "take k pre @ drop k pre = pre" by (rule append_take_drop_id)
      moreover have "take (length THINK_OPEN) (drop k pre) @ drop (length THINK_OPEN) (drop k pre)
          = drop k pre"
        by (rule append_take_drop_id)
      moreover have "drop (length THINK_OPEN) (drop k pre) = p1"
        by (simp add: p1_def add.commute)
      ultimately show ?thesis unfolding v_def by metis
    qed
    let ?r1 = "p1 @ THINK_OPEN @ rest"
    show ?thesis
    proof (cases "includes_str p1 THINK_CLOSE")
      case False
      text \<open>No close marker after the first open marker: it is the unterminated one.\<close>
      have no_close: "\<not> includes_str ?r1 THINK_CLOSE"
      proof
        assume "includes_str ?r1 THINK_CLOSE"
        then obtain c where c: "c \<le> length ?r1" "occurs_at ?r1 THINK_CLOSE c"
          by (auto simp: includes_str_iff)
        show False
        proof (cases "c < length p1")
          case True
          from no_straddle[OF open_starts_close_tail open_first(2) c(2) True]
          have le: "c + length THINK_CLOSE \<le> length p1" .
          with c(2) have "occurs_at p1 THINK_CLOSE c" by (simp only: occurs_at_prefix)
          with True False show False using includes_str_occurs[of p1 THINK_CLOSE c] by simp
        next
          case False
          then obtain d where "c = length p1 + d" by (metis le_Suc_ex not_less)
          with c(2) have "occurs_at (THINK_OPEN @ rest) THINK_CLOSE d"
            by (simp only: occurs_at_shift)
          with no_close_after_open[OF assms] show False by blast
        qed
      qed
      have "?raw = closed_blocks [] @ v @ THINK_OPEN @ ?r1"
        using pre_eq by (simp add: closed_blocks_Nil)
      moreover have "balanced_segments []" by (simp add: balanced_segments_def)
      ultimately show ?thesis using v_no no_close by blast
    next
      case True
      text \<open>The block is closed inside \<open>pre\<close>; the rest of \<open>pre\<close> is shorter.\<close>
      then obtain c where c: "indexOf p1 THINK_CLOSE 0 = Some c"
        by (auto simp: includes_str_def)
      define t where "t = take c p1"
      have t_no: "\<not> includes_str t THINK_CLOSE"
        unfolding t_def using c close_first(2) by (rule first_split)
      from occurs_at_split[OF indexOf_SomeD(3)[OF c]] obtain p2 where p2: "p1 = t @ THINK_CLOSE @ p2"
        unfolding t_def by blast
      have "length p2 < length pre"
        by (subst pre_eq, subst p2) (simp add: THINK_OPEN_def)
      from less.hyps[OF this] obtain segs v' part where
        rec: "balanced_segments segs" "\<not> includes_str v' THINK_OPEN"
          "\<not> includes_str part THINK_CLOSE"
          "p2 @ THINK_OPEN @ rest = closed_blocks segs @ v' @ THINK_OPEN @ part"
        by blast
      have "?raw = v @ THINK_OPEN @ t @ THINK_CLOSE @ (p2 @ THINK_OPEN @ rest)"
        by (subst pre_eq, subst p2) simp
      then have "?raw = closed_blocks ((v, t) # segs) @ v' @ THINK_OPEN @ part"
        by (simp only: rec(4) closed_blocks_Cons append_assoc)
      moreover have "balanced_segments ((v, t) # segs)"
        using rec(1) v_no t_no by (simp add: balanced_segments_def)
      ultimately show ?thesis using rec(2,3) by blast
    qed
  qed
qed

text \<open>
  Claim C4, as the code has it. For a text of closed blocks and a visible tail, where
  every open marker is closed by the next close marker, the response is the
  concatenation, in order, of the visible parts with leading and trailing whitespace
  trimmed, and \<open>thinkingParts\<close> holds the reasoning parts of the blocks, one entry per
  closed marker pair.
\<close>

theorem parseThinkContent_balanced:
  assumes "balanced_segments segs" and "\<not> includes_str tail THINK_OPEN"
  shows "response (parseThinkContent (closed_blocks segs @ tail))
           = trim (concat (map fst segs) @ tail)
    \<and> thinkingParts (parseThinkContent (closed_blocks segs @ tail)) = map snd segs
    \<and> length (thinkingParts (parseThinkContent (closed_blocks segs @ tail))) = length segs"
  by (simp add: parseThinkContent_def parse_loop_balanced[OF assms])

theorem parseThinkContent_balanced_witness:
  "response (parseThinkContent '' Hello <think>plan</think>!  '') = ''Hello !''
   \<and> thinkingParts (parseThinkContent '' Hello <think>plan</think>!  '') = [''plan'']"
proof -
  have b: "balanced_segments [('' Hello '', ''plan'')]" by code_simp
  have t: "\<not> includes_str ''!  '' THINK_OPEN" by code_simp
  have raw: "closed_blocks [('' Hello '', ''plan'')] @ ''!  '' = '' Hello <think>plan</think>!  ''"
    by code_simp
  have tr: "trim (concat (map fst [('' Hello '', ''plan'')]) @ ''!  '') = ''Hello !''"
    by code_simp
  from parseThinkContent_balanced[OF b t] show ?thesis
    by (simp only: raw tr) simp
qed

text \<open>
  Claim C4 as stated fails: the response is trimmed, so it is not exactly the
  concatenation of the visible parts when that begins or ends with whitespace. And an
  open marker is closed by the next close marker, so markers nested in two pairs give one
  entry, and the second close marker stays in the response.
\<close>

theorem parseThinkContent_trim_counterexample:
  "balanced_segments [('' Hello '', ''plan'')]
   \<and> \<not> includes_str ''!  '' THINK_OPEN
   \<and> closed_blocks [('' Hello '', ''plan'')] @ ''!  '' = '' Hello <think>plan</think>!  ''
   \<and> response (parseThinkContent '' Hello <think>plan</think>!  '') = ''Hello !''
   \<and> response (parseThinkContent '' Hello <think>plan</think>!  '')
        \<noteq> concat (map fst [('' Hello '', ''plan'')]) @ ''!  ''
   \<and> parseThinkContent ''<think>a<think>b</think>c</think>d''
        = \<lparr>response = ''c</think>d'', thinkingParts = [''a<think>b''], isInsideThink = False\<rparr>"
  by code_simp

text \<open>The parser's result on a buffer given as closed blocks, visible text, an open
  marker and a rest without close marker.\<close>

lemma parseThinkContent_partial:
  assumes "balanced_segments segs" and "\<not> includes_str v THINK_OPEN"
    and "\<not> includes_str part THINK_CLOSE"
  shows "isInsideThink (parseThinkContent (closed_blocks segs @ v @ THINK_OPEN @ part))
    \<and> thinkingParts (parseThinkContent (closed_blocks segs @ v @ THINK_OPEN @ part))
        = map snd segs @ (if part = [] then [] else [part])
    \<and> response (parseThinkContent (closed_blocks segs @ v @ THINK_OPEN @ part))
        = trim (concat (map fst segs) @ v)"
proof -
  have "isInsideThink (parseThinkContent ((closed_blocks segs @ v) @ THINK_OPEN @ part))"
    using assms(3) by (rule inside_unterminated)
  then show ?thesis
    by (simp add: parseThinkContent_def parse_loop_partial[OF assms])
qed

lemma empty_has_no_marker:
  "\<not> includes_str [] THINK_OPEN" "\<not> includes_str [] THINK_CLOSE"
  by code_simp+

lemma closed_blocks_snoc:
  "closed_blocks (segs @ [(v, t)]) = closed_blocks segs @ v @ THINK_OPEN @ t @ THINK_CLOSE"
  by (simp add: closed_blocks_def)

text \<open>Closing a partial segment that is not empty and opening a new, empty one leaves
  the parser's result as it was.\<close>

lemma parseThinkContent_reopen:
  assumes "balanced_segments segs" and "\<not> includes_str v THINK_OPEN"
    and "\<not> includes_str part THINK_CLOSE" and "part \<noteq> []"
  shows "parseThinkContent ((closed_blocks segs @ v @ THINK_OPEN @ part) @ THINK_CLOSE @ THINK_OPEN)
     = parseThinkContent (closed_blocks segs @ v @ THINK_OPEN @ part)"
proof -
  have b: "balanced_segments (segs @ [(v, part)])"
    using assms(1-3) by (simp add: balanced_segments_def)
  have raw: "(closed_blocks segs @ v @ THINK_OPEN @ part) @ THINK_CLOSE @ THINK_OPEN
      = closed_blocks (segs @ [(v, part)]) @ [] @ THINK_OPEN @ []"
    by (simp add: closed_blocks_snoc)
  note closed = parseThinkContent_partial[OF b empty_has_no_marker(1) empty_has_no_marker(2)]
  note partial = parseThinkContent_partial[OF assms(1-3)]
  show ?thesis
    unfolding raw using closed partial assms(4)
    by (intro ParseThinkResult.equality) simp_all
qed

text \<open>
  Claim C3, as the code has it. For every buffer in which an open marker is followed by
  no close marker, \<open>isInsideThink\<close> is true. The buffer is a sequence of closed blocks,
  visible text, an open marker and a rest that holds no close marker; that rest, the
  trailing partial segment, is the last entry of \<open>thinkingParts\<close> when it is not empty
  and is left out when it is empty, and the entries before it are the reasoning parts of
  the closed blocks. The result does not tell a partial last entry from a completed one:
  when the partial segment is not empty, the buffer in which it is closed and a new, empty
  segment is opened has the same result.
\<close>

theorem parseThinkContent_unterminated:
  assumes "\<not> includes_str rest THINK_CLOSE"
  shows "isInsideThink (parseThinkContent (pre @ THINK_OPEN @ rest))
    \<and> (\<exists>segs v part.
          balanced_segments segs \<and> \<not> includes_str v THINK_OPEN
          \<and> \<not> includes_str part THINK_CLOSE
          \<and> pre @ THINK_OPEN @ rest = closed_blocks segs @ v @ THINK_OPEN @ part
          \<and> thinkingParts (parseThinkContent (pre @ THINK_OPEN @ rest))
               = map snd segs @ (if part = [] then [] else [part])
          \<and> (part \<noteq> [] \<longrightarrow>
                parseThinkContent ((pre @ THINK_OPEN @ rest) @ THINK_CLOSE @ THINK_OPEN)
                  = parseThinkContent (pre @ THINK_OPEN @ rest)))"
proof -
  from unterminated_form[OF assms, of pre] obtain segs v part where
    f: "balanced_segments segs" "\<not> includes_str v THINK_OPEN" "\<not> includes_str part THINK_CLOSE"
      "pre @ THINK_OPEN @ rest = closed_blocks segs @ v @ THINK_OPEN @ part"
    by blast
  have "part \<noteq> [] \<longrightarrow>
      parseThinkContent ((pre @ THINK_OPEN @ rest) @ THINK_CLOSE @ THINK_OPEN)
        = parseThinkContent (pre @ THINK_OPEN @ rest)"
    unfolding f(4) using parseThinkContent_reopen[OF f(1-3)] by blast
  with parseThinkContent_partial[OF f(1-3)] f show ?thesis
    by (metis (no_types, lifting))
qed

theorem parseThinkContent_unterminated_witness:
  "isInsideThink (parseThinkContent ''Hi<think>plan</think>ok<think>more'')
   \<and> thinkingParts (parseThinkContent ''Hi<think>plan</think>ok<think>more'') = [''plan'', ''more'']
   \<and> isInsideThink (parseThinkContent ''Hi<think>plan</think>ok<think>'')
   \<and> thinkingParts (parseThinkContent ''Hi<think>plan</think>ok<think>'') = [''plan'']"
proof -
  have p: "\<not> includes_str ''more'' THINK_CLOSE" "\<not> includes_str [] THINK_CLOSE" by code_simp+
  have raw: "''Hi<think>plan</think>ok'' @ THINK_OPEN @ ''more''
      = ''Hi<think>plan</think>ok<think>more''"
    "''Hi<think>plan</think>ok'' @ THINK_OPEN @ [] = ''Hi<think>plan</think>ok<think>''"
    by (simp_all add: THINK_OPEN_def)
  have parts: "thinkingParts (parseThinkContent ''Hi<think>plan</think>ok<think>more'')
      = [''plan'', ''more'']"
    "thinkingParts (parseThinkContent ''Hi<think>plan</think>ok<think>'') = [''plan'']"
    by code_simp+
  from parseThinkContent_unterminated[OF p(1), of "''Hi<think>plan</think>ok''", THEN conjunct1]
    parseThinkContent_unterminated[OF p(2), of "''Hi<think>plan</think>ok''", THEN conjunct1]
  show ?thesis by (simp only: raw parts)
qed

text \<open>
  Claim C3 as stated fails: the text after the unclosed marker is in \<open>thinkingParts\<close>,
  as its last entry, and the result is the one of the buffer in which that segment is
  closed and followed by an open marker.
\<close>

theorem parseThinkContent_partial_counterexample:
  "\<not> includes_str ''more'' THINK_CLOSE
   \<and> parseThinkContent ''Hi<think>plan</think>ok<think>more''
      = \<lparr>response = ''Hiok'', thinkingParts = [''plan'', ''more''], isInsideThink = True\<rparr>
   \<and> parseThinkContent ''Hi<think>plan</think>ok<think>more</think><think>''
      = \<lparr>response = ''Hiok'', thinkingParts = [''plan'', ''more''], isInsideThink = True\<rparr>"
  by code_simp

section \<open>Grounding\<close>

lemma includes_str_embedded:
  assumes "includes_str s sub"
  shows "includes_str (a @ s @ b) sub"
proof -
  from assms obtain k where k: "k \<le> length s" "occurs_at s sub k"
    by (auto simp: includes_str_iff)
  have "occurs_at (s @ b) sub k"
  proof (cases "sub = []")
    case True
    then show ?thesis by (simp add: occurs_at_def)
  next
    case False
    from occurs_at_length[OF k(2) False] k(2) show ?thesis by (simp only: occurs_at_prefix)
  qed
  then have "occurs_at (a @ s @ b) sub (length a + k)" by (simp only: occurs_at_shift)
  moreover have "length a + k \<le> length (a @ s @ b)" using k(1) by simp
  ultimately show ?thesis by (rule includes_str_occurs)
qed

lemma join_member: "x \<in> set xs \<Longrightarrow> \<exists>a b. join sep xs = a @ x @ b"
proof (induction sep xs rule: join.induct)
  case (1 sep)
  then show ?case by simp
next
  case (2 sep y)
  then have "join sep [y] = [] @ x @ []" by simp
  then show ?case by blast
next
  case (3 sep y z zs)
  show ?case
  proof (cases "x = y")
    case True
    then have "join sep (y # z # zs) = [] @ x @ (sep @ join sep (z # zs))" by simp
    then show ?thesis by blast
  next
    case False
    with 3 obtain a b where "join sep (z # zs) = a @ x @ b" by auto
    then have "join sep (y # z # zs) = (y @ sep @ a) @ x @ b" by simp
    then show ?thesis by blast
  qed
qed

lemma no_results_no_grounding:
  "no_grounding ''No relevant information found in the knowledge base.''"
  by code_simp

text \<open>
  Claim C10. In fast mode, when the tool's answer contains \<open>No relevant information\<close> or
  starts with \<open>Error\<close>, the turn is the streamed response for the empty context,
  followed by the apology if the stream fails; otherwise it is the streamed response for
  the tool's answer as context. In thinking mode, in a turn classified \<open>KNOWLEDGE\<close>
  whose refined query has such an answer, the turn is the trace up to
  \<open>No relevant info found.\<close>, the close marker and the streamed response for the empty
  context. And the retrieved context does reach that test: when the store is ready and
  the search returns results of which one has a text containing
  \<open>No relevant information\<close>, the tool's answer is the join of the blocks of all results,
  and it is one of the answers dropped.
\<close>

theorem sentinel_drops_grounding:
  "(no_grounding (kb query) \<longrightarrow>
      runFastStream m kb query history
        = (case streamResponse m query [] of
             (tokens, Inr _) \<Rightarrow> (tokens, Inr [])
           | (tokens, Inl _) \<Rightarrow> (tokens @ [errResponse], Inr errResponse)))
   \<and> (\<not> no_grounding (kb query) \<longrightarrow>
      runFastStream m kb query history
        = (case streamResponse m query (kb query) of
             (tokens, Inr _) \<Rightarrow> (tokens, Inr [])
           | (tokens, Inl _) \<Rightarrow> (tokens @ [errResponse], Inr errResponse)))
   \<and> (classifyIntent m query history = Inr ''KNOWLEDGE''
        \<and> generateSearchQuery m query history = Inr refined \<and> no_grounding (kb refined) \<longrightarrow>
      runAgentStream m kb query history
        = (case streamResponse m query [] of
             (tokens, r) \<Rightarrow>
               (let emitted = [''<think>'', ''Analyzing user intent...'',
                      '' Intent identified: KNOWLEDGE.'', '' Refining search query...'',
                      '' Query: '' @ [CHR 0x22] @ refined @ [CHR 0x22] @ ''...'',
                      '' Searching...'', '' No relevant info found.'',
                      ''</think>\<newline>\<newline>''] @ tokens
                in case r of
                     Inr _ \<Rightarrow> (emitted, Inr [])
                   | Inl _ \<Rightarrow>
                       (emitted @ ['' Error processing request.'', ''</think>\<newline>\<newline>'',
                                   errResponse],
                        Inr errResponse))))
   \<and> (db st
        \<and> queryDocuments env st input (maxDocuments config) (similarityThreshold config)
            = Inr results
        \<and> r \<in> set results \<and> includes_str (sr_text r) ''No relevant information'' \<longrightarrow>
      KnowledgeBaseTool_call env st config input
        = join separator
            (map (\<lambda>r. ''[Title: '' @ title_or_untitled (title (metadata r))
                       @ '']\<newline>Content: '' @ sr_text r) results)
      \<and> no_grounding (KnowledgeBaseTool_call env st config input))"
proof (intro conjI impI)
  assume "no_grounding (kb query)"
  then show "runFastStream m kb query history
        = (case streamResponse m query [] of
             (tokens, Inr _) \<Rightarrow> (tokens, Inr [])
           | (tokens, Inl _) \<Rightarrow> (tokens @ [errResponse], Inr errResponse))"
    by (simp add: runFastStream_def Let_def split: prod.splits sum.splits)
next
  assume "\<not> no_grounding (kb query)"
  then show "runFastStream m kb query history
        = (case streamResponse m query (kb query) of
             (tokens, Inr _) \<Rightarrow> (tokens, Inr [])
           | (tokens, Inl _) \<Rightarrow> (tokens @ [errResponse], Inr errResponse))"
    by (simp add: runFastStream_def Let_def split: prod.splits sum.splits)
next
  assume "classifyIntent m query history = Inr ''KNOWLEDGE''
        \<and> generateSearchQuery m query history = Inr refined \<and> no_grounding (kb refined)"
  then show "runAgentStream m kb query history
        = (case streamResponse m query [] of
             (tokens, r) \<Rightarrow>
               (let emitted = [''<think>'', ''Analyzing user intent...'',
                      '' Intent identified: KNOWLEDGE.'', '' Refining search query...'',
                      '' Query: '' @ [CHR 0x22] @ refined @ [CHR 0x22] @ ''...'',
                      '' Searching...'', '' No relevant info found.'',
                      ''</think>\<newline>\<newline>''] @ tokens
                in case r of
                     Inr _ \<Rightarrow> (emitted, Inr [])
                   | Inl _ \<Rightarrow>
                       (emitted @ ['' Error processing request.'', ''</think>\<newline>\<newline>'',
                                   errResponse],
                        Inr errResponse)))"
    by (simp add: runAgentStream_def agent_try_body_def Let_def split: prod.splits sum.splits)
next
  assume a: "db st
        \<and> queryDocuments env st input (maxDocuments config) (similarityThreshold config)
            = Inr results
        \<and> r \<in> set results \<and> includes_str (sr_text r) ''No relevant information''"
  let ?fmt = "\<lambda>r. ''[Title: '' @ title_or_untitled (title (metadata r))
                       @ '']\<newline>Content: '' @ sr_text r"
  from a have ne: "results \<noteq> []" by auto
  with a show call: "KnowledgeBaseTool_call env st config input = join separator (map ?fmt results)"
    by (simp add: KnowledgeBaseTool_call_def isLanceReady_def)
  from a have "?fmt r \<in> set (map ?fmt results)" by simp
  from join_member[OF this] obtain x y where xy: "join separator (map ?fmt results) = x @ ?fmt r @ y"
    by blast
  define pre where "pre = x @ ''[Title: '' @ title_or_untitled (title (metadata r))
      @ '']\<newline>Content: ''"
  have eq: "join separator (map ?fmt results) = pre @ sr_text r @ y"
    by (simp only: xy pre_def append_assoc)
  from a have "includes_str (sr_text r) ''No relevant information''" by simp
  then have "includes_str (pre @ sr_text r @ y) ''No relevant information''"
    by (rule includes_str_embedded)
  then have "includes_str (join separator (map ?fmt results)) ''No relevant information''"
    by (simp only: eq)
  then show "no_grounding (KnowledgeBaseTool_call env st config input)"
    by (simp add: call no_grounding_def)
qed

theorem sentinel_drops_grounding_witness:
  "queryDocuments (fixed_env (Some 0) True) (ready_state [sentinel_document]) ''zenlise''
      (maxDocuments example_config) (similarityThreshold example_config)
     = Inr [\<lparr>sr_id = ''doc-1'', sr_text = ''No relevant information was lost when Zenlise moved.'',
              metadata = \<lparr>title = ''Zenlise migration'', created_at = 1, updated_at = 1\<rparr>,
              score = 1\<rparr>]
   \<and> KnowledgeBaseTool_call (fixed_env (Some 0) True) (ready_state [sentinel_document])
        example_config ''zenlise''
     = ''[Title: Zenlise migration]\<newline>Content: No relevant information was lost when Zenlise moved.''
   \<and> runFastStream echo_model
        (KnowledgeBaseTool_call (fixed_env (Some 0) True) (ready_state [sentinel_document])
           example_config) ''zenlise'' []
     = ([[]], Inr [])"
proof -
  let ?env = "fixed_env (Some 0) True" and ?st = "ready_state [sentinel_document]"
  let ?r = "\<lparr>sr_id = ''doc-1'', sr_text = ''No relevant information was lost when Zenlise moved.'',
              metadata = \<lparr>title = ''Zenlise migration'', created_at = 1, updated_at = 1\<rparr>,
              score = 1::real\<rparr>"
  have d: "db ?st" by (simp add: ready_state_def)
  have q: "queryDocuments ?env ?st ''zenlise'' (maxDocuments example_config)
      (similarityThreshold example_config) = Inr [?r]"
    by code_simp
  have i: "includes_str (sr_text ?r) ''No relevant information''" by code_simp
  have s: "streamResponse echo_model ''zenlise'' [] = ([[]], Inr ())" by code_simp
  have j: "join separator (map (\<lambda>r. ''[Title: '' @ title_or_untitled (title (metadata r))
      @ '']\<newline>Content: '' @ sr_text r) [?r])
      = ''[Title: Zenlise migration]\<newline>Content: No relevant information was lost when Zenlise moved.''"
    by code_simp
  note t = sentinel_drops_grounding[where kb = "KnowledgeBaseTool_call ?env ?st example_config"
      and query = "''zenlise''" and m = echo_model and history = "[]" and env = ?env and st = ?st
      and config = example_config and input = "''zenlise''" and results = "[?r]" and r = ?r]
  have prem: "db ?st
      \<and> queryDocuments ?env ?st ''zenlise'' (maxDocuments example_config)
            (similarityThreshold example_config) = Inr [?r]
      \<and> ?r \<in> set [?r] \<and> includes_str (sr_text ?r) ''No relevant information''"
    using d q i by simp
  note c = t[THEN conjunct2, THEN conjunct2, THEN conjunct2, THEN mp, OF prem]
  from c[THEN conjunct1] have call: "KnowledgeBaseTool_call ?env ?st example_config ''zenlise''
      = ''[Title: Zenlise migration]\<newline>Content: No relevant information was lost when Zenlise moved.''"
    unfolding j .
  from t[THEN conjunct1, THEN mp, OF c[THEN conjunct2]]
  have "runFastStream echo_model (KnowledgeBaseTool_call ?env ?st example_config)
      ''zenlise'' [] = ([[]], Inr [])"
    unfolding s by simp
  with q call show ?thesis by blast
qed

end
